theory Spec2Isabelle
  imports Main "HOL-Library.Word"
begin

unbundle bit_operations_syntax

section \<open>Python exceptions\<close>

text \<open>
  The exceptions that the four functions of \<^verbatim>\<open>file_manipulation.py\<close> can meet. An
  operating-system error that is neither \<^verbatim>\<open>FileNotFoundError\<close> nor
  \<^verbatim>\<open>PermissionError\<close> is \<open>OSError\<close> with the name of its class.
\<close>

datatype py_error =
    IndexError
  | FileNotFoundError
  | PermissionError
  | OSError string
  | MissingSectionHeaderError
  | DuplicateSectionError string
  | DuplicateOptionError string string
  | ParsingError
  | NoSectionError string
  | NoOptionError string string
  | InterpolationSyntaxError
  | InterpolationMissingOptionError string
  | InterpolationDepthError

section \<open>backup\<close>

text \<open>
  \<^verbatim>\<open>backup\<close> talks to the operating system through \<^verbatim>\<open>shutil.copy\<close>,
  \<^verbatim>\<open>os.makedirs\<close>, \<^verbatim>\<open>print\<close> and the clock. These are taken as parameters: each
  is a function on a world \<open>'w\<close> that returns the exception it raises, if any, and the
  world it leaves behind. \<open>strftime_now\<close> is
  \<^verbatim>\<open>datetime.now().strftime("%Y-%m-%d %Hh%M")\<close>.
\<close>

record 'w os_api =
  shutil_copy :: "string \<Rightarrow> string \<Rightarrow> 'w \<Rightarrow> py_error option \<times> 'w"
  os_makedirs :: "string \<Rightarrow> 'w \<Rightarrow> py_error option \<times> 'w"
  strftime_now :: "'w \<Rightarrow> string"

text \<open>Every call that \<^verbatim>\<open>backup\<close> makes is recorded, in order, next to the world.\<close>

datatype call = Copy string string | Makedirs string | Print string

type_synonym 'w run = "'w \<times> call list"

definition do_copy :: "'w os_api \<Rightarrow> string \<Rightarrow> string \<Rightarrow> 'w run \<Rightarrow> py_error option \<times> 'w run" where
  "do_copy api src dst s =
     (case shutil_copy api src dst (fst s) of
        (r, w') \<Rightarrow> (r, (w', snd s @ [Copy src dst])))"

definition do_makedirs :: "'w os_api \<Rightarrow> string \<Rightarrow> 'w run \<Rightarrow> py_error option \<times> 'w run" where
  "do_makedirs api path s =
     (case os_makedirs api path (fst s) of
        (r, w') \<Rightarrow> (r, (w', snd s @ [Makedirs path])))"

definition do_print :: "string \<Rightarrow> 'w run \<Rightarrow> 'w run" where
  "do_print msg s = (fst s, snd s @ [Print msg])"

text \<open>\<^verbatim>\<open>s.rindex(c)\<close>: the highest index of \<open>c\<close>, \<open>None\<close> where Python raises ValueError.\<close>

fun rindex :: "string \<Rightarrow> char \<Rightarrow> nat option" where
  "rindex [] c = None"
| "rindex (x # xs) c =
     (case rindex xs c of
        Some i \<Rightarrow> Some (Suc i)
      | None \<Rightarrow> (if x = c then Some 0 else None))"

text \<open>Lines 132-135: \<^verbatim>\<open>file[file.rindex('.'):]\<close>, or the empty string.\<close>

definition extension :: "string \<Rightarrow> string" where
  "extension file = (case rindex file CHR ''.'' of Some i \<Rightarrow> drop i file | None \<Rightarrow> [])"

text \<open>Line 129-137: the name of the backup, derived from the clock when none is given.\<close>

definition default_backup_name :: "'w os_api \<Rightarrow> string \<Rightarrow> string \<Rightarrow> 'w \<Rightarrow> string" where
  "default_backup_name api file backup_name w =
     (if backup_name = [] then strftime_now api w @ extension file else backup_name)"

text \<open>
  Lines 139-141. \<open>CHR 0x5C\<close> is the backslash. \<^verbatim>\<open>output_path[-1]\<close> is read only when
  the path is not empty, where it is the last character.
\<close>

definition separator_condition :: "string \<Rightarrow> bool" where
  "separator_condition output_path \<longleftrightarrow>
     length output_path > 0 \<and> (last output_path \<noteq> CHR 0x5C \<or> last output_path \<noteq> CHR ''/'')"

definition normalize_output_path :: "string \<Rightarrow> string" where
  "normalize_output_path output_path =
     (if separator_condition output_path then output_path @ ''/'' else output_path)"

text \<open>The two-line message of lines 151-153 (Latin-1 code points for the accented letters).\<close>

definition permission_message :: string where
  "permission_message =
     ''Caminho informado n'' @ [CHR 0xE3] @ ''o existe. Cria'' @ [CHR 0xE7, CHR 0xE3]
     @ ''o de diret'' @ [CHR 0xF3] @ ''rio n'' @ [CHR 0xE3] @ ''o foi autorizado.''
     @ [CHR 0x0A] @ ''Ajuste a permiss'' @ [CHR 0xE3]
     @ ''o do algoritmo ou crie manualmente a pasta de destino.''"

text \<open>
  The \<^verbatim>\<open>finally\<close> clause of line 154-155. It runs on every way out of the
  \<^verbatim>\<open>try\<close> statement; \<open>pending\<close> is the exception on its way out, if any. An exception
  of the clause itself replaces the pending one; otherwise the pending one goes on.
\<close>

definition finally_copy ::
  "'w os_api \<Rightarrow> string \<Rightarrow> string \<Rightarrow> py_error option \<Rightarrow> 'w run \<Rightarrow> py_error option \<times> 'w run" where
  "finally_copy api src dst pending s =
     (case do_copy api src dst s of
        (Some e, s') \<Rightarrow> (Some e, s')
      | (None, s') \<Rightarrow> (pending, s'))"

text \<open>
  Lines 143-155. The result is the exception that leaves \<^verbatim>\<open>backup\<close>, \<open>None\<close> when it
  returns.
\<close>

definition backup ::
  "'w os_api \<Rightarrow> string \<Rightarrow> string \<Rightarrow> string \<Rightarrow> 'w run \<Rightarrow> py_error option \<times> 'w run" where
  "backup api file output_path backup_name s =
     (let backup_name = default_backup_name api file backup_name (fst s);
          output_path = normalize_output_path output_path;
          dst = output_path @ backup_name
      in case do_copy api file dst s of
           (None, s1) \<Rightarrow> finally_copy api file dst None s1
         | (Some e, s1) \<Rightarrow>
             if e = FileNotFoundError then
               (case do_makedirs api output_path s1 of
                  (None, s2) \<Rightarrow> finally_copy api file dst None s2
                | (Some e2, s2) \<Rightarrow>
                    if e2 = PermissionError
                    then finally_copy api file dst None (do_print permission_message s2)
                    else finally_copy api file dst (Some e2) s2)
             else finally_copy api file dst (Some e) s1)"

text \<open>The path that \<^verbatim>\<open>backup\<close> copies to.\<close>

definition destination :: "'w os_api \<Rightarrow> string \<Rightarrow> string \<Rightarrow> string \<Rightarrow> 'w \<Rightarrow> string" where
  "destination api file output_path backup_name w =
     normalize_output_path output_path @ default_backup_name api file backup_name w"

text \<open>
  Two small operating systems to run \<^verbatim>\<open>backup\<close> on. The world of \<open>plain_os\<close> is the
  list of directories that exist: a copy succeeds when the directory part of the
  destination exists, and a directory can always be created. In \<open>locked_os\<close> no
  directory can be created.
\<close>

definition dirname :: "string \<Rightarrow> string" where
  "dirname p = (case rindex p CHR ''/'' of Some i \<Rightarrow> take (Suc i) p | None \<Rightarrow> [])"

definition plain_os :: "string list os_api" where
  "plain_os =
     \<lparr> shutil_copy = (\<lambda>src dst dirs.
          if dirname dst = [] \<or> dirname dst \<in> set dirs then (None, dirs)
          else (Some FileNotFoundError, dirs)),
       os_makedirs = (\<lambda>p dirs.
          if p \<in> set dirs then (Some (OSError ''FileExistsError''), dirs) else (None, p # dirs)),
       strftime_now = (\<lambda>dirs. ''2024-05-17 09h41'') \<rparr>"

definition locked_os :: "string list os_api" where
  "locked_os = plain_os \<lparr> os_makedirs := (\<lambda>p dirs. (Some PermissionError, dirs)) \<rparr>"

section \<open>SHA-256 and hexadecimal digests\<close>

text \<open>
  \<^verbatim>\<open>check_hash\<close> calls \<^verbatim>\<open>hashlib.sha256\<close>, which is not code of this repository.
  It is modelled after FIPS 180-4 on 32-bit words: \<open>sha256\<close> is what
  \<^verbatim>\<open>h = hashlib.sha256(); h.update(m); h.digest()\<close> returns, and \<open>hexlify\<close> turns a
  digest into what \<^verbatim>\<open>hexdigest()\<close> returns.
\<close>

type_synonym byte = "8 word"
type_synonym u32 = "32 word"

definition rotr :: "nat \<Rightarrow> u32 \<Rightarrow> u32" where
  "rotr n x = drop_bit n x OR push_bit (32 - n) x"

definition Ch :: "u32 \<Rightarrow> u32 \<Rightarrow> u32 \<Rightarrow> u32" where
  "Ch x y z = (x AND y) XOR (NOT x AND z)"

definition Maj :: "u32 \<Rightarrow> u32 \<Rightarrow> u32 \<Rightarrow> u32" where
  "Maj x y z = (x AND y) XOR (x AND z) XOR (y AND z)"

definition big_sigma0 :: "u32 \<Rightarrow> u32" where
  "big_sigma0 x = rotr 2 x XOR rotr 13 x XOR rotr 22 x"

definition big_sigma1 :: "u32 \<Rightarrow> u32" where
  "big_sigma1 x = rotr 6 x XOR rotr 11 x XOR rotr 25 x"

definition small_sigma0 :: "u32 \<Rightarrow> u32" where
  "small_sigma0 x = rotr 7 x XOR rotr 18 x XOR drop_bit 3 x"

definition small_sigma1 :: "u32 \<Rightarrow> u32" where
  "small_sigma1 x = rotr 17 x XOR rotr 19 x XOR drop_bit 10 x"

text \<open>
  The sixty-four round constants (the first 32 bits of the fractional parts of the cube
  roots of the first sixty-four primes), in decimal, and the eight initial hash values.
\<close>

definition sha256_K :: "u32 list" where
  "sha256_K =
   [1116352408, 1899447441, 3049323471, 3921009573, 961987163, 1508970993,
    2453635748, 2870763221, 3624381080, 310598401, 607225278, 1426881987,
    1925078388, 2162078206, 2614888103, 3248222580, 3835390401, 4022224774,
    264347078, 604807628, 770255983, 1249150122, 1555081692, 1996064986,
    2554220882, 2821834349, 2952996808, 3210313671, 3336571891, 3584528711,
    113926993, 338241895, 666307205, 773529912, 1294757372, 1396182291,
    1695183700, 1986661051, 2177026350, 2456956037, 2730485921, 2820302411,
    3259730800, 3345764771, 3516065817, 3600352804, 4094571909, 275423344,
    430227734, 506948616, 659060556, 883997877, 958139571, 1322822218,
    1537002063, 1747873779, 1955562222, 2024104815, 2227730452, 2361852424,
    2428436474, 2756734187, 3204031479, 3329325298]"

definition sha256_H0 :: "u32 list" where
  "sha256_H0 = [0x6a09e667, 0xbb67ae85, 0x3c6ef372, 0xa54ff53a,
                0x510e527f, 0x9b05688c, 0x1f83d9ab, 0x5be0cd19]"

definition be32 :: "u32 \<Rightarrow> byte list" where
  "be32 x = [ucast (drop_bit 24 x), ucast (drop_bit 16 x), ucast (drop_bit 8 x), ucast x]"

definition be64 :: "64 word \<Rightarrow> byte list" where
  "be64 x = map (\<lambda>i. ucast (drop_bit (8 * i) x)) [7, 6, 5, 4, 3, 2, 1, 0]"

text \<open>The message, the byte 0x80, zeros up to 56 modulo 64, and the bit length on 8 bytes.\<close>

definition sha256_pad :: "byte list \<Rightarrow> byte list" where
  "sha256_pad m =
     m @ [0x80] @ replicate ((119 - length m mod 64) mod 64) 0 @ be64 (of_nat (8 * length m))"

definition word_of_bytes :: "byte list \<Rightarrow> u32" where
  "word_of_bytes bs = foldl (\<lambda>acc b. push_bit 8 acc OR ucast b) 0 bs"

fun words_of :: "byte list \<Rightarrow> u32 list" where
  "words_of (a # b # c # d # rest) = word_of_bytes [a, b, c, d] # words_of rest"
| "words_of _ = []"

text \<open>
  The message schedule, \<open>n\<close> words of it: \<open>w\<close> holds the sixteen words before the next
  one.
\<close>

fun schedule :: "nat \<Rightarrow> u32 list \<Rightarrow> u32 list" where
  "schedule 0 w = []"
| "schedule (Suc n) w =
     (case w of
        [] \<Rightarrow> []
      | w0 # rest \<Rightarrow>
          w0 # schedule n (rest @ [small_sigma1 (w ! 14) + w ! 9 + small_sigma0 (w ! 1) + w0]))"

fun round_step :: "u32 list \<Rightarrow> u32 \<times> u32 \<Rightarrow> u32 list" where
  "round_step [a, b, c, d, e, f, g, h] (k, w) =
     (let t1 = h + big_sigma1 e + Ch e f g + k + w;
          t2 = big_sigma0 a + Maj a b c
      in [t1 + t2, a, b, c, d + t1, e, f, g])"
| "round_step s _ = s"

definition compress :: "u32 list \<Rightarrow> u32 list \<Rightarrow> u32 list" where
  "compress h block = map2 (+) h (foldl round_step h (zip sha256_K (schedule 64 block)))"

fun blocks :: "nat \<Rightarrow> u32 list \<Rightarrow> u32 list list" where
  "blocks 0 ws = []"
| "blocks (Suc n) ws = take 16 ws # blocks n (drop 16 ws)"

definition sha256 :: "byte list \<Rightarrow> byte list" where
  "sha256 m =
     (let ws = words_of (sha256_pad m)
      in concat (map be32 (foldl compress sha256_H0 (blocks (length ws div 16) ws))))"

definition hexdigit :: "nat \<Rightarrow> char" where
  "hexdigit n = ''0123456789abcdef'' ! n"

definition hexlify :: "byte list \<Rightarrow> string" where
  "hexlify bs = concat (map (\<lambda>b. [hexdigit (unat b div 16), hexdigit (unat b mod 16)]) bs)"

section \<open>check\_hash\<close>

text \<open>
  The files that \<^verbatim>\<open>check_hash\<close> reads: \<^verbatim>\<open>open(file, 'rb')\<close> followed by
  \<^verbatim>\<open>f.read()\<close> gives the bytes of the file, or raises.
\<close>

type_synonym binary_files = "string \<Rightarrow> py_error + byte list"

text \<open>The two shapes of the result: a string for one file, a boolean for several.\<close>

datatype hash_result = Hexdigest string | Verdict bool

text \<open>
  Lines 195-207, the loop over the files. The local variable \<^verbatim>\<open>hash\<close> is \<open>None\<close> while
  it is unbound: reading it then raises \<^verbatim>\<open>UnboundLocalError\<close>, and the handler of line
  204-206 binds it to the digest of the file at hand. \<open>opened\<close> lists the files opened
  so far. The result comes with the files that were opened, in order.
\<close>

fun check_hash_loop ::
  "binary_files \<Rightarrow> byte list option \<Rightarrow> string list \<Rightarrow> string list
     \<Rightarrow> (py_error + hash_result) \<times> string list" where
  "check_hash_loop fs hash [] opened = (Inr (Verdict True), opened)"
| "check_hash_loop fs hash (file # files) opened =
     (case fs file of
        Inl e \<Rightarrow> (Inl e, opened)
      | Inr content \<Rightarrow>
          (case hash of
             Some h \<Rightarrow>
               if h = sha256 content then check_hash_loop fs hash files (opened @ [file])
               else (Inr (Verdict False), opened @ [file])
           | None \<Rightarrow> check_hash_loop fs (Some (sha256 content)) files (opened @ [file])))"

text \<open>Lines 194-214. \<^verbatim>\<open>files[0]\<close> on the empty tuple raises \<^verbatim>\<open>IndexError\<close>.\<close>

definition check_hash :: "binary_files \<Rightarrow> string list \<Rightarrow> (py_error + hash_result) \<times> string list" where
  "check_hash fs files =
     (if length files > 1 then check_hash_loop fs None files []
      else
        (case files of
           [] \<Rightarrow> (Inl IndexError, [])
         | file # _ \<Rightarrow>
             (case fs file of
                Inl e \<Rightarrow> (Inl e, [])
              | Inr content \<Rightarrow> (Inr (Hexdigest (hexlify (sha256 content))), [file]))))"

text \<open>Three files to run \<^verbatim>\<open>check_hash\<close> on: two hold \<open>abc\<close>, the third \<open>abd\<close>.\<close>

definition three_files :: binary_files where
  "three_files p =
     (if p = ''a.bin'' \<or> p = ''b.bin'' then Inr [0x61, 0x62, 0x63]
      else if p = ''c.bin'' then Inr [0x61, 0x62, 0x64]
      else Inl FileNotFoundError)"

section \<open>Python strings and dictionaries\<close>

text \<open>
  A Python string is a list of characters; a \<open>char\<close> stands for the code point of the
  same number (below 256). \<open>isspace\<close> is \<^verbatim>\<open>str.isspace\<close> on one character, which is also
  what \<^verbatim>\<open>\s\<close> matches in a regular expression on strings.
\<close>

definition isspace :: "char \<Rightarrow> bool" where
  "isspace c \<longleftrightarrow> (of_char c :: nat) \<in> {9, 10, 11, 12, 13, 28, 29, 30, 31, 32, 133, 160}"

definition lstrip :: "string \<Rightarrow> string" where
  "lstrip s = dropWhile isspace s"

definition rstrip :: "string \<Rightarrow> string" where
  "rstrip s = rev (dropWhile isspace (rev s))"

definition strip :: "string \<Rightarrow> string" where
  "strip s = lstrip (rstrip s)"

text \<open>\<^verbatim>\<open>str.lower\<close>: the letters A-Z and the capital letters of Latin-1 move up by 32.\<close>

definition lower_char :: "char \<Rightarrow> char" where
  "lower_char c =
     (let n = (of_char c :: nat)
      in if (65 \<le> n \<and> n \<le> 90) \<or> (192 \<le> n \<and> n \<le> 214) \<or> (216 \<le> n \<and> n \<le> 222)
         then char_of (n + 32) else c)"

definition lower :: "string \<Rightarrow> string" where
  "lower s = map lower_char s"

definition startswith :: "string \<Rightarrow> string \<Rightarrow> bool" where
  "startswith s p \<longleftrightarrow> take (length p) s = p"

text \<open>\<^verbatim>\<open>sep.join(xs)\<close>.\<close>

fun join :: "string \<Rightarrow> string list \<Rightarrow> string" where
  "join sep [] = []"
| "join sep [x] = x"
| "join sep (x # y # ys) = x @ sep @ join sep (y # ys)"

text \<open>\<^verbatim>\<open>s.find(c)\<close> for a character: the lowest index of \<open>c\<close>, \<open>None\<close> for \<open>-1\<close>.\<close>

fun find_char :: "(char \<Rightarrow> bool) \<Rightarrow> string \<Rightarrow> nat option" where
  "find_char P [] = None"
| "find_char P (x # xs) = (if P x then Some 0 else map_option Suc (find_char P xs))"

text \<open>
  A dictionary keeps its keys in the order of their first insertion: an association list
  without repeated keys. \<open>dict_set\<close> is \<^verbatim>\<open>d[k] = v\<close>.
\<close>

type_synonym ('k, 'v) dict = "('k \<times> 'v) list"

fun dict_set :: "'k \<Rightarrow> 'v \<Rightarrow> ('k, 'v) dict \<Rightarrow> ('k, 'v) dict" where
  "dict_set k v [] = [(k, v)]"
| "dict_set k v (p # ps) = (if fst p = k then (k, v) # ps else p # dict_set k v ps)"

definition is_dict :: "('k, 'v) dict \<Rightarrow> bool" where
  "is_dict d \<longleftrightarrow> distinct (map fst d)"

text \<open>\<^verbatim>\<open>ConfigDocument\<close>: section to option to value.\<close>

type_synonym document = "(string, (string, string) dict) dict"

section \<open>Text files\<close>

text \<open>
  The text files that \<^verbatim>\<open>create_cfg\<close> writes and \<^verbatim>\<open>read_cfg\<close> reads. \<open>file_text\<close> is the
  text in the file, or the \<^verbatim>\<open>OSError\<close> that opening it for reading raises;
  \<open>open_w_error\<close> is the exception that opening it for writing raises, if any.
\<close>

record text_files =
  file_text :: "string \<Rightarrow> py_error + string"
  open_w_error :: "string \<Rightarrow> py_error option"

text \<open>
  Reading in text mode with universal newlines: a carriage return, with the line feed
  after it if there is one, is read as a line feed. (Writing is modelled as on POSIX,
  where a line feed is written as it is.)
\<close>

fun universal_newlines :: "string \<Rightarrow> string" where
  "universal_newlines [] = []"
| "universal_newlines [c] = (if c = CHR 0x0D then [CHR 0x0A] else [c])"
| "universal_newlines (c # d # cs) =
     (if c = CHR 0x0D then
        (if d = CHR 0x0A then CHR 0x0A # universal_newlines cs
         else CHR 0x0A # universal_newlines (d # cs))
      else c # universal_newlines (d # cs))"

text \<open>Iterating over a text file: the lines, each with its line feed (the last may lack it).\<close>

fun readlines :: "string \<Rightarrow> string list" where
  "readlines [] = []"
| "readlines (c # cs) =
     (if c = CHR 0x0A then [c] # readlines cs
      else (case readlines cs of [] \<Rightarrow> [[c]] | l # ls \<Rightarrow> (c # l) # ls))"

section \<open>create\_cfg\<close>

text \<open>Line 35 and line 37: what is written for a section header and for an option.\<close>

definition section_line :: "string \<Rightarrow> string" where
  "section_line section = [CHR 0x0A] @ ''['' @ section @ '']'' @ [CHR 0x0A]"

definition option_line :: "string \<times> string \<Rightarrow> string" where
  "option_line ov = fst ov @ ''='' @ snd ov @ [CHR 0x0A]"

definition cfg_text :: "document \<Rightarrow> string" where
  "cfg_text cfg_dict =
     concat (map (\<lambda>(section, options). section_line section @ concat (map option_line options))
        cfg_dict)"

text \<open>Lines 33-37. The file is replaced by the text; the other files stay.\<close>

definition create_cfg :: "text_files \<Rightarrow> string \<Rightarrow> document \<Rightarrow> py_error + text_files" where
  "create_cfg fs file cfg_dict =
     (case open_w_error fs file of
        Some e \<Rightarrow> Inl e
      | None \<Rightarrow> Inr (fs\<lparr>file_text := (file_text fs)(file := Inr (cfg_text cfg_dict))\<rparr>))"

section \<open>ConfigParser\<close>

text \<open>
  \<^verbatim>\<open>read_cfg\<close> works through \<^verbatim>\<open>configparser.ConfigParser()\<close> of the Python standard
  library, which is not code of this repository. The model follows
  \<^verbatim>\<open>configparser.py\<close> of CPython 3.11 for a parser made with no arguments: the
  delimiters are \<open>=\<close> and \<open>:\<close>, a line that starts with \<open>#\<close> or \<open>;\<close> is a comment,
  there are no inline comments, the parser is strict, empty lines belong to values,
  the default section is \<open>DEFAULT\<close>, and values go through \<^verbatim>\<open>BasicInterpolation\<close>.
\<close>

definition DEFAULTSECT :: string where
  "DEFAULTSECT = ''DEFAULT''"

definition MAX_INTERPOLATION_DEPTH :: nat where
  "MAX_INTERPOLATION_DEPTH = 10"

text \<open>\<^verbatim>\<open>optionxform\<close>.\<close>

definition optionxform :: "string \<Rightarrow> string" where
  "optionxform optionstr = lower optionstr"

text \<open>
  \<^verbatim>\<open>SECTCRE.match(value)\<close>, the pattern \<^verbatim>\<open>\[(?P<header>.+)\]\<close> matched at the start of
  \<open>value\<close>: an opening bracket, then as many characters as possible (at least one)
  before a closing bracket. The result is the header.
\<close>

definition sectcre_match :: "string \<Rightarrow> string option" where
  "sectcre_match v =
     (case v of
        [] \<Rightarrow> None
      | c # rest \<Rightarrow>
          if c = CHR ''['' then
            (case rindex rest CHR '']'' of
               Some i \<Rightarrow> if i \<ge> 1 then Some (take i rest) else None
             | None \<Rightarrow> None)
          else None)"

text \<open>
  \<^verbatim>\<open>OPTCRE.match(value)\<close>, the pattern
  \<^verbatim>\<open>(?P<option>.*?)\s*(?P<vi>=|:)\s*(?P<value>.*)$\<close>: the option is what stands before
  the first delimiter, without the white space at its end; the value is what stands
  after it, without the white space at its start. No delimiter, no match.
\<close>

definition is_delimiter :: "char \<Rightarrow> bool" where
  "is_delimiter c \<longleftrightarrow> c = CHR ''='' \<or> c = CHR '':''"

definition optcre_match :: "string \<Rightarrow> (string \<times> string) option" where
  "optcre_match v =
     (case find_char is_delimiter v of
        None \<Rightarrow> None
      | Some i \<Rightarrow> Some (rstrip (take i v), lstrip (drop (Suc i) v)))"

text \<open>
  The state of \<^verbatim>\<open>_read\<close>: the two dictionaries of the parser, whose values are lists of
  lines until they are joined, and the local variables. \<open>cursect\<close> says which
  dictionary the local variable of that name refers to.
\<close>

datatype cursect = NoSection | InDefaults | InSection string

datatype element = SectionElement string | OptionElement string string

record read_state =
  rs_sections :: "(string, (string, string list) dict) dict"
  rs_defaults :: "(string, string list) dict"
  elements_added :: "element list"
  cursect :: cursect
  sectname :: "string option"
  optname :: "string option"
  indent_level :: nat
  rs_e :: bool

definition initial_state :: read_state where
  "initial_state =
     \<lparr> rs_sections = [], rs_defaults = [], elements_added = [], cursect = NoSection,
       sectname = None, optname = None, indent_level = 0, rs_e = False \<rparr>"

text \<open>\<^verbatim>\<open>cursect[optname]\<close> and \<^verbatim>\<open>cursect[optname] = val\<close>.\<close>

definition cursect_get :: "read_state \<Rightarrow> string \<Rightarrow> string list option" where
  "cursect_get st name =
     (case cursect st of
        NoSection \<Rightarrow> None
      | InDefaults \<Rightarrow> map_of (rs_defaults st) name
      | InSection s \<Rightarrow> (case map_of (rs_sections st) s of None \<Rightarrow> None | Some d \<Rightarrow> map_of d name))"

definition cursect_set :: "read_state \<Rightarrow> string \<Rightarrow> string list \<Rightarrow> read_state" where
  "cursect_set st name val =
     (case cursect st of
        NoSection \<Rightarrow> st
      | InDefaults \<Rightarrow> st\<lparr>rs_defaults := dict_set name val (rs_defaults st)\<rparr>
      | InSection s \<Rightarrow>
          (case map_of (rs_sections st) s of
             None \<Rightarrow> st
           | Some d \<Rightarrow> st\<lparr>rs_sections := dict_set s (dict_set name val d) (rs_sections st)\<rparr>))"

text \<open>\<^verbatim>\<open>cursect[optname].append(line)\<close>.\<close>

definition cursect_append :: "read_state \<Rightarrow> string \<Rightarrow> string \<Rightarrow> read_state" where
  "cursect_append st name line =
     (case cursect_get st name of
        None \<Rightarrow> st
      | Some val \<Rightarrow> cursect_set st name (val @ [line]))"

text \<open>The truth value of \<^verbatim>\<open>optname\<close>: it is neither \<^verbatim>\<open>None\<close> nor the empty string.\<close>

definition truthy :: "string option \<Rightarrow> bool" where
  "truthy x \<longleftrightarrow> (case x of None \<Rightarrow> False | Some s \<Rightarrow> s \<noteq> [])"

text \<open>The index of the first character that is not white space, 0 when there is none.\<close>

definition cur_indent_level :: "string \<Rightarrow> nat" where
  "cur_indent_level line = (case find_char (\<lambda>c. \<not> isspace c) line of Some i \<Rightarrow> i | None \<Rightarrow> 0)"

text \<open>A section header has been read (the branch \<^verbatim>\<open>if mo:\<close> of \<^verbatim>\<open>_read\<close>).\<close>

definition read_header :: "read_state \<Rightarrow> string \<Rightarrow> py_error + read_state" where
  "read_header st header =
     (if header \<in> fst ` set (rs_sections st) then
        (if SectionElement header \<in> set (elements_added st)
         then Inl (DuplicateSectionError header)
         else Inr (st\<lparr>sectname := Some header, cursect := InSection header,
                      elements_added := elements_added st @ [SectionElement header],
                      optname := None\<rparr>))
      else if header = DEFAULTSECT then
        Inr (st\<lparr>sectname := Some header, cursect := InDefaults, optname := None\<rparr>)
      else
        Inr (st\<lparr>sectname := Some header, cursect := InSection header,
                 rs_sections := rs_sections st @ [(header, [])],
                 elements_added := elements_added st @ [SectionElement header],
                 optname := None\<rparr>))"

text \<open>An option line has matched, with the groups \<open>option\<close> and \<open>value\<close>.\<close>

definition read_option :: "read_state \<Rightarrow> string \<Rightarrow> string \<Rightarrow> py_error + read_state" where
  "read_option st option optval =
     (let st = (if option = [] then st\<lparr>rs_e := True\<rparr> else st);
          name = optionxform (rstrip option);
          sect = (case sectname st of Some s \<Rightarrow> s | None \<Rightarrow> [])
      in if OptionElement sect name \<in> set (elements_added st)
         then Inl (DuplicateOptionError sect name)
         else Inr (cursect_set
                (st\<lparr>optname := Some name,
                    elements_added := elements_added st @ [OptionElement sect name]\<rparr>)
                name [strip optval]))"

text \<open>The body of the loop of \<^verbatim>\<open>_read\<close>, for one line.\<close>

definition is_comment :: "string \<Rightarrow> bool" where
  "is_comment line \<longleftrightarrow> startswith (strip line) ''#'' \<or> startswith (strip line) '';''"

definition read_line :: "read_state \<Rightarrow> string \<Rightarrow> py_error + read_state" where
  "read_line st line =
     (let val = (if is_comment line then [] else strip line)
      in if val = [] then
           (if \<not> is_comment line \<and> cursect st \<noteq> NoSection \<and> truthy (optname st)
            then Inr (cursect_append st (the (optname st)) [])
            else Inr st)
         else if cursect st \<noteq> NoSection \<and> truthy (optname st)
                 \<and> cur_indent_level line > indent_level st
         then Inr (cursect_append st (the (optname st)) val)
         else
           (let st = st\<lparr>indent_level := cur_indent_level line\<rparr>
            in case sectcre_match val of
                 Some header \<Rightarrow> read_header st header
               | None \<Rightarrow>
                   if cursect st = NoSection then Inl MissingSectionHeaderError
                   else
                     (case optcre_match val of
                        Some (option, optval) \<Rightarrow> read_option st option optval
                      | None \<Rightarrow> Inr (st\<lparr>rs_e := True\<rparr>))))"

fun read_lines :: "read_state \<Rightarrow> string list \<Rightarrow> py_error + read_state" where
  "read_lines st [] = Inr st"
| "read_lines st (line # rest) =
     (case read_line st line of
        Inl err \<Rightarrow> Inl err
      | Inr st' \<Rightarrow> read_lines st' rest)"

text \<open>The parser once a file is read: \<^verbatim>\<open>self._sections\<close> and \<^verbatim>\<open>self._defaults\<close>.\<close>

record config =
  cp_sections :: document
  cp_defaults :: "(string, string) dict"

definition empty_config :: config where
  "empty_config = \<lparr> cp_sections = [], cp_defaults = [] \<rparr>"

text \<open>\<^verbatim>\<open>_join_multiline_values\<close>: every list of lines becomes one string.\<close>

definition join_value :: "string list \<Rightarrow> string" where
  "join_value val = rstrip (join [CHR 0x0A] val)"

definition join_multiline_values :: "read_state \<Rightarrow> config" where
  "join_multiline_values st =
     \<lparr> cp_sections = map (\<lambda>(s, d). (s, map (\<lambda>(name, val). (name, join_value val)) d)) (rs_sections st),
       cp_defaults = map (\<lambda>(name, val). (name, join_value val)) (rs_defaults st) \<rparr>"

text \<open>\<^verbatim>\<open>_read\<close> on the text of a file.\<close>

definition cp_read_text :: "string \<Rightarrow> py_error + config" where
  "cp_read_text text =
     (case read_lines initial_state (readlines text) of
        Inl err \<Rightarrow> Inl err
      | Inr st \<Rightarrow> if rs_e st then Inl ParsingError else Inr (join_multiline_values st))"

text \<open>
  \<^verbatim>\<open>config.read(file)\<close> on a new parser: a file that cannot be opened is passed over
  (\<^verbatim>\<open>except OSError: continue\<close>) and leaves the parser empty.
\<close>

definition is_OSError :: "py_error \<Rightarrow> bool" where
  "is_OSError err \<longleftrightarrow>
     (case err of FileNotFoundError \<Rightarrow> True | PermissionError \<Rightarrow> True | OSError _ \<Rightarrow> True | _ \<Rightarrow> False)"

definition cp_read :: "text_files \<Rightarrow> string \<Rightarrow> py_error + config" where
  "cp_read fs file =
     (case file_text fs file of
        Inl err \<Rightarrow> if is_OSError err then Inr empty_config else Inl err
      | Inr text \<Rightarrow> cp_read_text (universal_newlines text))"

text \<open>\<^verbatim>\<open>config.sections()\<close> and \<^verbatim>\<open>config.options(section)\<close>.\<close>

definition cp_section_names :: "config \<Rightarrow> string list" where
  "cp_section_names config = map fst (cp_sections config)"

definition cp_options :: "config \<Rightarrow> string \<Rightarrow> py_error + string list" where
  "cp_options config section =
     (case map_of (cp_sections config) section of
        None \<Rightarrow> Inl (NoSectionError section)
      | Some d \<Rightarrow> Inr (map fst (foldl (\<lambda>opts (k, v). dict_set k v opts) d (cp_defaults config))))"

text \<open>
  \<^verbatim>\<open>_unify_values\<close>: the section's own options first, then those of the default
  section.
\<close>

definition unify_values :: "config \<Rightarrow> string \<Rightarrow> string \<Rightarrow> string option" where
  "unify_values config section name =
     (case (case map_of (cp_sections config) section of None \<Rightarrow> None | Some d \<Rightarrow> map_of d name) of
        Some v \<Rightarrow> Some v
      | None \<Rightarrow> map_of (cp_defaults config) name)"

text \<open>
  \<^verbatim>\<open>_KEYCRE.match(rest)\<close>, the pattern \<^verbatim>\<open>%\(([^)]+)\)s\<close>: the name between the
  brackets and what follows the \<open>s\<close>.
\<close>

definition keycre_match :: "string \<Rightarrow> (string \<times> string) option" where
  "keycre_match rest =
     (if startswith rest ''%('' then
        (let name = takeWhile (\<lambda>c. c \<noteq> CHR '')'') (drop 2 rest);
             after = dropWhile (\<lambda>c. c \<noteq> CHR '')'') (drop 2 rest)
         in if name \<noteq> [] \<and> startswith after '')s'' then Some (name, drop 2 after) else None)
      else None)"

text \<open>
  \<^verbatim>\<open>BasicInterpolation._interpolate_some\<close>. The result is the text that the call adds
  to \<^verbatim>\<open>accum\<close>. One round of the \<^verbatim>\<open>while\<close> loop is one call; the test of the depth at
  the head of the Python function is passed again at each round.
\<close>

lemma find_char_less: "find_char P s = Some p \<Longrightarrow> p < length s"
  by (induction s arbitrary: p) (auto split: if_splits)

lemma keycre_match_shorter: "keycre_match r = Some (name, r') \<Longrightarrow> length r' < length r"
proof -
  assume a: "keycre_match r = Some (name, r')"
  then have s: "startswith r ''%(''" and r': "r' = drop 2 (dropWhile (\<lambda>c. c \<noteq> CHR '')'') (drop 2 r))"
    by (auto simp: keycre_match_def Let_def split: if_splits)
  from s have "2 \<le> length r" by (cases r; cases "tl r") (auto simp: startswith_def)
  moreover have "length (dropWhile (\<lambda>c. c \<noteq> CHR '')'') (drop 2 r)) \<le> length (drop 2 r)"
    by (rule length_dropWhile_le)
  ultimately show ?thesis using r' by simp
qed

function interpolate_some :: "(string \<Rightarrow> string option) \<Rightarrow> string \<Rightarrow> nat \<Rightarrow> py_error + string" where
  "interpolate_some m rest depth =
     (if depth > MAX_INTERPOLATION_DEPTH then Inl InterpolationDepthError
      else if rest = [] then Inr []
      else
        (case find_char (\<lambda>c. c = CHR ''%'') rest of
           None \<Rightarrow> Inr rest
         | Some p \<Rightarrow>
             (let pre = take p rest; rest = drop p rest; c = take 1 (drop 1 rest)
              in if c = ''%'' then
                   (case interpolate_some m (drop 2 rest) depth of
                      Inl err \<Rightarrow> Inl err
                    | Inr s \<Rightarrow> Inr (pre @ ''%'' @ s))
                 else if c = ''('' then
                   (case keycre_match rest of
                      None \<Rightarrow> Inl InterpolationSyntaxError
                    | Some (name, rest') \<Rightarrow>
                        (case m (optionxform name) of
                           None \<Rightarrow> Inl (InterpolationMissingOptionError (optionxform name))
                         | Some v \<Rightarrow>
                             (case (if CHR ''%'' \<in> set v then interpolate_some m v (depth + 1)
                                    else Inr v) of
                                Inl err \<Rightarrow> Inl err
                              | Inr s1 \<Rightarrow>
                                  (case interpolate_some m rest' depth of
                                     Inl err \<Rightarrow> Inl err
                                   | Inr s2 \<Rightarrow> Inr (pre @ s1 @ s2)))))
                 else Inl InterpolationSyntaxError)))"
  by pat_completeness auto
termination
  by (relation "measures [\<lambda>(m, rest, depth). Suc MAX_INTERPOLATION_DEPTH - depth,
                          \<lambda>(m, rest, depth). length rest]")
     (auto simp: MAX_INTERPOLATION_DEPTH_def dest: find_char_less keycre_match_shorter)

text \<open>
  \<^verbatim>\<open>config.get(section, option)\<close>: the option name goes through \<^verbatim>\<open>optionxform\<close>
  again, the value is looked up and then interpolated (\<^verbatim>\<open>before_get\<close>, depth 1).
\<close>

definition cp_get :: "config \<Rightarrow> string \<Rightarrow> string \<Rightarrow> py_error + string" where
  "cp_get config section option =
     (if map_of (cp_sections config) section = None \<and> section \<noteq> DEFAULTSECT
      then Inl (NoSectionError section)
      else
        (case unify_values config section (optionxform option) of
           None \<Rightarrow> Inl (NoOptionError (optionxform option) section)
         | Some v \<Rightarrow> interpolate_some (unify_values config section) v 1))"

section \<open>read\_cfg\<close>

text \<open>Lines 82-84: the loop over the options of a section, \<open>options_dict\<close> being built.\<close>

fun read_options ::
  "config \<Rightarrow> string \<Rightarrow> string list \<Rightarrow> (string, string) dict \<Rightarrow> py_error + (string, string) dict" where
  "read_options config section [] options_dict = Inr options_dict"
| "read_options config section (option # options) options_dict =
     (case cp_get config section option of
        Inl err \<Rightarrow> Inl err
      | Inr v \<Rightarrow> read_options config section options (dict_set option v options_dict))"

text \<open>Lines 78-86: the loop over the sections, \<open>sections_dict\<close> being built.\<close>

fun read_sections :: "config \<Rightarrow> string list \<Rightarrow> document \<Rightarrow> py_error + document" where
  "read_sections config [] sections_dict = Inr sections_dict"
| "read_sections config (section # sections) sections_dict =
     (case cp_options config section of
        Inl err \<Rightarrow> Inl err
      | Inr options \<Rightarrow>
          (case read_options config section options [] of
             Inl err \<Rightarrow> Inl err
           | Inr options_dict \<Rightarrow>
               read_sections config sections (dict_set section options_dict sections_dict)))"

text \<open>Lines 72-88.\<close>

definition read_cfg :: "text_files \<Rightarrow> string \<Rightarrow> py_error + document" where
  "read_cfg fs file =
     (case cp_read fs file of
        Inl err \<Rightarrow> Inl err
      | Inr config \<Rightarrow> read_sections config (cp_section_names config) [])"

section \<open>Documents that come back as they were written\<close>

text \<open>
  \<^verbatim>\<open>create_cfg\<close> escapes nothing and the parser strips, lowers and interpolates. The
  documents below are those the two agree on. A section name is not empty, has no
  line break and is not \<open>DEFAULT\<close>. An option name is not empty, has no line break,
  no white space at either end and no delimiter, and does not start with \<open>#\<close>, \<open>;\<close>
  or \<open>[\<close>. A value has no line break, no white space at either end and no \<open>%\<close>.
  Within a section the option names stay distinct once in lower case.
\<close>

definition no_linebreak :: "string \<Rightarrow> bool" where
  "no_linebreak s \<longleftrightarrow> CHR 0x0A \<notin> set s \<and> CHR 0x0D \<notin> set s"

definition valid_section_name :: "string \<Rightarrow> bool" where
  "valid_section_name s \<longleftrightarrow> s \<noteq> [] \<and> no_linebreak s \<and> s \<noteq> DEFAULTSECT"

definition valid_option_name :: "string \<Rightarrow> bool" where
  "valid_option_name name \<longleftrightarrow>
     name \<noteq> [] \<and> no_linebreak name \<and> strip name = name
     \<and> find_char is_delimiter name = None \<and> hd name \<notin> set ''#;[''"

definition valid_value :: "string \<Rightarrow> bool" where
  "valid_value v \<longleftrightarrow> no_linebreak v \<and> strip v = v \<and> CHR ''%'' \<notin> set v"

definition valid_section :: "string \<times> (string, string) dict \<Rightarrow> bool" where
  "valid_section sec \<longleftrightarrow>
     valid_section_name (fst sec)
     \<and> distinct (map (\<lambda>ov. optionxform (fst ov)) (snd sec))
     \<and> list_all (\<lambda>ov. valid_option_name (fst ov) \<and> valid_value (snd ov)) (snd sec)"

definition valid_document :: "document \<Rightarrow> bool" where
  "valid_document doc \<longleftrightarrow> is_dict doc \<and> list_all valid_section doc"

text \<open>The option names of a dictionary are in lower case; those of a whole document.\<close>

definition lower_keys :: "(string, 'v) dict \<Rightarrow> bool" where
  "lower_keys d \<longleftrightarrow> list_all (\<lambda>kv. optionxform (fst kv) = fst kv) d"

definition lowercase_options :: "document \<Rightarrow> bool" where
  "lowercase_options doc \<longleftrightarrow> list_all (\<lambda>sec. lower_keys (snd sec)) doc"

text \<open>The document with every option name through \<^verbatim>\<open>optionxform\<close>.\<close>

definition lower_options :: "document \<Rightarrow> document" where
  "lower_options doc = map (\<lambda>sec. (fst sec, map (\<lambda>ov. (optionxform (fst ov), snd ov)) (snd sec))) doc"

text \<open>What the specification asks of the values: no \<open>=\<close> and no line feed.\<close>

definition values_as_claimed :: "document \<Rightarrow> bool" where
  "values_as_claimed doc \<longleftrightarrow>
     list_all (\<lambda>sec. list_all (\<lambda>ov. CHR ''='' \<notin> set (snd ov) \<and> CHR 0x0A \<notin> set (snd ov)) (snd sec)) doc"

text \<open>Writing a document to a path and reading that path.\<close>

definition write_then_read :: "text_files \<Rightarrow> string \<Rightarrow> document \<Rightarrow> py_error + document" where
  "write_then_read fs f doc =
     (case create_cfg fs f doc of Inl err \<Rightarrow> Inl err | Inr fs' \<Rightarrow> read_cfg fs' f)"

text \<open>
  Files to run the two functions on: \<open>no_files\<close> holds no file and lets every file be
  written; \<open>written doc\<close> is \<open>no_files\<close> after \<^verbatim>\<open>create_cfg('app.cfg', doc)\<close>.
\<close>

definition no_files :: text_files where
  "no_files = \<lparr> file_text = (\<lambda>p. Inl FileNotFoundError), open_w_error = (\<lambda>p. None) \<rparr>"

definition written :: "document \<Rightarrow> text_files" where
  "written doc = no_files\<lparr>file_text := (file_text no_files)(''app.cfg'' := Inr (cfg_text doc))\<rparr>"

definition config_example :: document where
  "config_example =
     [(''server'', [(''host'', ''example.org''), (''port'', ''8080''), (''motd'', [])]),
      (''paths'', []),
      (''log'', [(''file name'', ''/var/log/app.log'')])]"

section \<open>States of the parser while it reads what create\_cfg wrote\<close>

text \<open>
  The lines that \<^verbatim>\<open>create_cfg\<close> writes for one section: an empty line, the header, the
  options.
\<close>

definition section_lines :: "string \<times> (string, string) dict \<Rightarrow> string list" where
  "section_lines sec =
     [CHR 0x0A] # (''['' @ fst sec @ '']'' @ [CHR 0x0A]) # map option_line (snd sec)"

text \<open>
  \<open>lists_of\<close> is a section as \<^verbatim>\<open>_read\<close> holds it just after its option lines, every
  value a list of one line; \<open>joined\<close> is what \<^verbatim>\<open>_join_multiline_values\<close> makes of
  the sections.
\<close>

definition lists_of :: "(string, string) dict \<Rightarrow> (string, string list) dict" where
  "lists_of d = map (\<lambda>ov. (fst ov, [snd ov])) d"

definition joined :: "(string, (string, string list) dict) dict \<Rightarrow> document" where
  "joined secs = map (\<lambda>(s, d). (s, map (\<lambda>(name, val). (name, join_value val)) d)) secs"

text \<open>
  \<open>in_section st d s cur\<close>: the sections \<open>d\<close> are read, and of section \<open>s\<close> the header
  and the options \<open>cur\<close>. \<open>after_blank st d\<close>: the sections \<open>d\<close> are read, and the
  empty line before the next header. \<open>ready st d\<close>: the sections \<open>d\<close> are read and
  the next line starts a section or ends the file.
\<close>

definition after_blank :: "read_state \<Rightarrow> document \<Rightarrow> bool" where
  "after_blank st d \<longleftrightarrow>
     joined (rs_sections st) = d \<and> rs_defaults st = [] \<and> \<not> rs_e st
     \<and> (\<forall>s' n'. OptionElement s' n' \<in> set (elements_added st) \<longrightarrow> s' \<in> fst ` set d)"

definition in_section :: "read_state \<Rightarrow> document \<Rightarrow> string \<Rightarrow> (string, string) dict \<Rightarrow> bool" where
  "in_section st d s cur \<longleftrightarrow>
     (\<exists>secs. rs_sections st = secs @ [(s, lists_of cur)] \<and> joined secs = d)
     \<and> rs_defaults st = [] \<and> \<not> rs_e st
     \<and> cursect st = InSection s \<and> sectname st = Some s
     \<and> optname st = (if cur = [] then None else Some (fst (last cur)))
     \<and> s \<notin> fst ` set d
     \<and> distinct (map fst cur)
     \<and> list_all (\<lambda>ov. fst ov \<noteq> [] \<and> rstrip (snd ov) = snd ov) cur
     \<and> (\<forall>s' n'. OptionElement s' n' \<in> set (elements_added st) \<longrightarrow>
            s' \<in> fst ` set d \<or> (s' = s \<and> n' \<in> fst ` set cur))"

definition ready :: "read_state \<Rightarrow> document \<Rightarrow> bool" where
  "ready st d \<longleftrightarrow>
     (st = initial_state \<and> d = [])
     \<or> (\<exists>d0 s cur. in_section st d0 s cur \<and> d = d0 @ [(s, cur)])"

text \<open>A section whose values \<^verbatim>\<open>get\<close> returns as they are stored.\<close>

definition plain_section :: "string \<times> (string, string) dict \<Rightarrow> bool" where
  "plain_section sec \<longleftrightarrow>
     distinct (map fst (snd sec))
     \<and> list_all (\<lambda>ov. optionxform (fst ov) = fst ov \<and> CHR ''%'' \<notin> set (snd ov)) (snd sec)"

text \<open>Every option name that the parser holds is in lower case.\<close>

definition lower_state :: "read_state \<Rightarrow> bool" where
  "lower_state st \<longleftrightarrow>
     list_all (\<lambda>sec. lower_keys (snd sec)) (rs_sections st) \<and> lower_keys (rs_defaults st)
     \<and> (case optname st of None \<Rightarrow> True | Some n \<Rightarrow> optionxform n = n)"

definition lower_config :: "config \<Rightarrow> bool" where
  "lower_config c \<longleftrightarrow>
     list_all (\<lambda>sec. lower_keys (snd sec)) (cp_sections c) \<and> lower_keys (cp_defaults c)"

section \<open>The option names that a file stores\<close>

text \<open>
  \<^verbatim>\<open>_read\<close> takes the name of an option from the line that holds it:
  \<^verbatim>\<open>optname, vi, optval = mo.group('option', 'vi', 'value')\<close>, before \<^verbatim>\<open>optionxform\<close>
  is applied to it. \<open>option_group st line\<close> is that group \<open>option\<close> when \<^verbatim>\<open>_read\<close>, in the
  state \<open>st\<close>, takes \<open>line\<close> for an option line; it is \<open>None\<close> for a comment, an empty
  line, the continuation of a value, a section header, a line before any header and a
  line without delimiter. The tests are those of \<open>read_line\<close>, in the same order.
  \<open>sect_of st\<close> is the local variable \<^verbatim>\<open>sectname\<close> as \<open>read_option\<close> reads it.
\<close>

definition sect_of :: "read_state \<Rightarrow> string" where
  "sect_of st = (case sectname st of Some s \<Rightarrow> s | None \<Rightarrow> [])"

definition option_group :: "read_state \<Rightarrow> string \<Rightarrow> string option" where
  "option_group st line =
     (let val = (if is_comment line then [] else strip line)
      in if val = [] then None
         else if cursect st \<noteq> NoSection \<and> truthy (optname st)
                 \<and> cur_indent_level line > indent_level st
         then None
         else
           (case sectcre_match val of
              Some header \<Rightarrow> None
            | None \<Rightarrow>
                if cursect st = NoSection then None
                else map_option fst (optcre_match val)))"

text \<open>
  The option names of the lines read, each with the section of its line, in the order of
  the lines; then those of a whole text, as \<open>cp_read\<close> splits it into lines.
\<close>

fun stored_names_from :: "read_state \<Rightarrow> string list \<Rightarrow> (string \<times> string) list" where
  "stored_names_from st [] = []"
| "stored_names_from st (line # rest) =
     (case read_line st line of
        Inl err \<Rightarrow> []
      | Inr st' \<Rightarrow>
          (case option_group st line of
             Some name \<Rightarrow> [(sect_of st, name)]
           | None \<Rightarrow> [])
          @ stored_names_from st' rest)"

definition stored_names :: "string \<Rightarrow> (string \<times> string) list" where
  "stored_names text = stored_names_from initial_state (readlines (universal_newlines text))"


text \<open>The names that \<^verbatim>\<open>create_cfg\<close> writes for a document, each with its section.\<close>

definition names_of :: "document \<Rightarrow> (string \<times> string) list" where
  "names_of doc = concat (map (\<lambda>sec. map (\<lambda>ov. (fst sec, fst ov)) (snd sec)) doc)"

text \<open>
  A file that was not written by \<^verbatim>\<open>create_cfg\<close>: white space around the delimiters, a
  colon for delimiter, a value that goes on over a second line, and a default section.
\<close>

definition config_text_example :: string where
  "config_text_example =
     ''[s]'' @ [CHR 0x0A] @ ''Key = v'' @ [CHR 0x0A] @ ''port: 80'' @ [CHR 0x0A]
     @ ''  more=1'' @ [CHR 0x0A] @ ''[DEFAULT]'' @ [CHR 0x0A] @ ''Zed=9'' @ [CHR 0x0A]"




section \<open>backup: the separator test\<close>

lemma separator_condition_iff: "separator_condition p \<longleftrightarrow> p \<noteq> []"
  by (auto simp: separator_condition_def)

text \<open>
  C2. For every non-empty \<open>output_path\<close> the test of lines 139-140 is true, so a \<open>/\<close> is
  appended before the copy, also when the path already ends in \<open>/\<close> or in a backslash:
  the first call of \<^verbatim>\<open>backup\<close> is the copy to \<open>output_path @ ''/'' @ name\<close>.
\<close>

theorem backup_always_appends_separator:
  assumes "output_path \<noteq> []"
  shows "separator_condition output_path
       \<and> normalize_output_path output_path = output_path @ ''/''
       \<and> hd (snd (snd (backup api file output_path backup_name (w, [])))) =
           Copy file (output_path @ ''/'' @ default_backup_name api file backup_name w)"
proof -
  have c: "separator_condition output_path"
    using assms by (simp add: separator_condition_iff)
  then have n: "normalize_output_path output_path = output_path @ ''/''"
    by (simp add: normalize_output_path_def)
  have "hd (snd (snd (backup api file output_path backup_name (w, [])))) =
          Copy file (normalize_output_path output_path @ default_backup_name api file backup_name w)"
    by (simp add: backup_def Let_def do_copy_def do_makedirs_def do_print_def finally_copy_def
        split: prod.splits option.splits)
  with c n show ?thesis by simp
qed

theorem backup_always_appends_separator_witness:
  "''out/'' \<noteq> [] \<and> separator_condition ''out/''
   \<and> normalize_output_path ''out/'' = ''out//''
   \<and> hd (snd (snd (backup plain_os ''a.txt'' ''out/'' ''b.txt'' ([''out//''], [])))) =
        Copy ''a.txt'' ''out//b.txt''"
proof -
  have h: "''out/'' \<noteq> []" by simp
  show ?thesis
    using backup_always_appends_separator [OF h, of plain_os "''a.txt''" "''b.txt''" "[''out//'']"]
    by (simp add: default_backup_name_def)
qed

section \<open>backup: the final copy\<close>

lemma backup_calls_nonempty:
  "snd (snd (backup api file output_path backup_name (w, []))) \<noteq> []"
  by (simp add: backup_def Let_def do_copy_def do_makedirs_def do_print_def finally_copy_def
      split: prod.splits option.splits)

lemma backup_last_call:
  "last (snd (snd (backup api file output_path backup_name (w, [])))) =
     Copy file (destination api file output_path backup_name w)"
  by (simp add: backup_def Let_def do_copy_def do_makedirs_def do_print_def finally_copy_def
      destination_def split: prod.splits option.splits)

lemma backup_length_calls:
  "2 \<le> length (snd (snd (backup api file output_path backup_name (w, []))))"
  by (simp add: backup_def Let_def do_copy_def do_makedirs_def do_print_def finally_copy_def
      split: prod.splits option.splits)

lemma backup_success_path:
  assumes "shutil_copy api file (destination api file output_path backup_name w) w = (None, w1)"
  shows "backup api file output_path backup_name (w, []) =
           (fst (shutil_copy api file (destination api file output_path backup_name w) w1),
            snd (shutil_copy api file (destination api file output_path backup_name w) w1),
            [Copy file (destination api file output_path backup_name w),
             Copy file (destination api file output_path backup_name w)])"
  using assms
  by (simp add: backup_def Let_def do_copy_def finally_copy_def destination_def
      split: prod.splits option.splits)

text \<open>
  C4. Whatever happens in the \<^verbatim>\<open>try\<close> statement, the last call of \<^verbatim>\<open>backup\<close> is the
  copy of the \<^verbatim>\<open>finally\<close> clause, made after at least one earlier call. When the first
  copy succeeds, \<^verbatim>\<open>backup\<close> makes exactly two calls, both the same copy of the file to the
  destination, the second one in the world that the first one left, and the outcome of
  \<^verbatim>\<open>backup\<close> is the outcome of the second.
\<close>

theorem backup_final_copy_unconditional:
  "2 \<le> length (snd (snd (backup api file output_path backup_name (w, []))))
   \<and> last (snd (snd (backup api file output_path backup_name (w, [])))) =
       Copy file (destination api file output_path backup_name w)
   \<and> (shutil_copy api file (destination api file output_path backup_name w) w = (None, w1) \<longrightarrow>
        backup api file output_path backup_name (w, []) =
          (fst (shutil_copy api file (destination api file output_path backup_name w) w1),
           snd (shutil_copy api file (destination api file output_path backup_name w) w1),
           [Copy file (destination api file output_path backup_name w),
            Copy file (destination api file output_path backup_name w)]))"
  by (intro conjI impI backup_length_calls backup_last_call backup_success_path)

theorem backup_final_copy_unconditional_witness:
  "shutil_copy plain_os ''a.txt'' ''2024-05-17 09h41.txt'' [] = (None, [])
   \<and> destination plain_os ''a.txt'' [] [] [] = ''2024-05-17 09h41.txt''
   \<and> backup plain_os ''a.txt'' [] [] ([], []) =
       (None, [], [Copy ''a.txt'' ''2024-05-17 09h41.txt'', Copy ''a.txt'' ''2024-05-17 09h41.txt''])
   \<and> last (snd (snd (backup plain_os ''a.txt'' [] [] ([], [])))) =
       Copy ''a.txt'' ''2024-05-17 09h41.txt''"
proof -
  have d: "destination plain_os ''a.txt'' [] [] [] = ''2024-05-17 09h41.txt''"
    by (simp add: destination_def normalize_output_path_def separator_condition_def
        default_backup_name_def extension_def plain_os_def)
  have c: "shutil_copy plain_os ''a.txt'' ''2024-05-17 09h41.txt'' [] = (None, [])"
    by (simp add: plain_os_def dirname_def)
  show ?thesis
    using backup_final_copy_unconditional [of plain_os "''a.txt''" "[]" "[]" "[]" "[]"] c d
    by simp
qed

section \<open>backup: a directory that cannot be created\<close>

text \<open>
  C3 (the code departs from the claim). When the first copy raises
  \<^verbatim>\<open>FileNotFoundError\<close> and \<^verbatim>\<open>os.makedirs\<close> raises \<^verbatim>\<open>PermissionError\<close>, the message is
  printed, and then the \<^verbatim>\<open>finally\<close> clause copies again: \<^verbatim>\<open>backup\<close> makes four calls,
  the last one the same copy as the first, and its outcome is the outcome of that
  copy.
\<close>

theorem backup_permission_denied_copies_again:
  assumes "shutil_copy api file (destination api file output_path backup_name w) w
             = (Some FileNotFoundError, w1)"
    and "os_makedirs api (normalize_output_path output_path) w1 = (Some PermissionError, w2)"
  shows "backup api file output_path backup_name (w, []) =
           (fst (shutil_copy api file (destination api file output_path backup_name w) w2),
            snd (shutil_copy api file (destination api file output_path backup_name w) w2),
            [Copy file (destination api file output_path backup_name w),
             Makedirs (normalize_output_path output_path),
             Print permission_message,
             Copy file (destination api file output_path backup_name w)])"
  using assms
  by (simp add: backup_def Let_def do_copy_def do_makedirs_def do_print_def finally_copy_def
      destination_def split: prod.splits option.splits)

theorem backup_permission_denied_copies_again_witness:
  "shutil_copy locked_os ''data.txt'' ''backups/copy.txt'' [] = (Some FileNotFoundError, [])
   \<and> os_makedirs locked_os ''backups/'' [] = (Some PermissionError, [])
   \<and> backup locked_os ''data.txt'' ''backups'' ''copy.txt'' ([], []) =
       (Some FileNotFoundError, [],
        [Copy ''data.txt'' ''backups/copy.txt'', Makedirs ''backups/'',
         Print permission_message, Copy ''data.txt'' ''backups/copy.txt''])"
proof -
  have d: "destination locked_os ''data.txt'' ''backups'' ''copy.txt'' [] = ''backups/copy.txt''"
    by (simp add: destination_def normalize_output_path_def separator_condition_def
        default_backup_name_def)
  have n: "normalize_output_path ''backups'' = ''backups/''"
    by (simp add: normalize_output_path_def separator_condition_def)
  have c: "shutil_copy locked_os ''data.txt'' ''backups/copy.txt'' [] = (Some FileNotFoundError, [])"
    by (simp add: locked_os_def plain_os_def dirname_def)
  have m: "os_makedirs locked_os ''backups/'' [] = (Some PermissionError, [])"
    by (simp add: locked_os_def)
  show ?thesis
    using backup_permission_denied_copies_again
      [of locked_os "''data.txt''" "''backups''" "''copy.txt''" "[]" "[]" "[]"] c m d n
    by simp
qed

section \<open>SHA-256: the size of a digest, and two digests\<close>

lemma length_round_step: "length s = 8 \<Longrightarrow> length (round_step s kw) = 8"
proof -
  assume "length s = 8"
  then obtain a b c d e f g h where "s = [a, b, c, d, e, f, g, h]"
    by (auto simp: length_Suc_conv numeral_eq_Suc)
  then show ?thesis by (cases kw) (simp add: Let_def)
qed

lemma length_foldl_round_step: "length s = 8 \<Longrightarrow> length (foldl round_step s kws) = 8"
  by (induction kws arbitrary: s) (simp_all add: length_round_step)

lemma length_compress: "length h = 8 \<Longrightarrow> length (compress h block) = 8"
  by (simp add: compress_def length_foldl_round_step)

lemma length_foldl_compress: "length h = 8 \<Longrightarrow> length (foldl compress h bs) = 8"
  by (induction bs arbitrary: h) (simp_all add: length_compress)

lemma length_concat_be32: "length (concat (map be32 ws)) = 4 * length ws"
  by (induction ws) (simp_all add: be32_def)

lemma length_sha256: "length (sha256 m) = 32"
  by (simp add: sha256_def Let_def length_concat_be32 length_foldl_compress sha256_H0_def)

lemma length_hexlify: "length (hexlify bs) = 2 * length bs"
  by (induction bs) (simp_all add: hexlify_def)

lemma hexdigit_in: "n < 16 \<Longrightarrow> hexdigit n \<in> set ''0123456789abcdef''"
  unfolding hexdigit_def by (rule nth_mem) simp

lemma set_hexlify: "set (hexlify bs) \<subseteq> set ''0123456789abcdef''"
proof -
  define S where "S = set ''0123456789abcdef''"
  have d: "unat b div 16 < 16" for b :: byte
    using unsigned_less [of b, where ?'a = nat] by (simp add: less_mult_imp_div_less)
  have h: "hexdigit n \<in> S" if "n < 16" for n
    using hexdigit_in [OF that] by (simp only: S_def)
  have "set (hexlify bs) \<subseteq> S"
    by (induction bs) (simp_all add: hexlify_def h d)
  then show ?thesis by (simp only: S_def)
qed

lemma check_hash_loop_opened:
  "snd (check_hash_loop fs hash files opened) = opened @ snd (check_hash_loop fs hash files [])"
proof (induction files arbitrary: hash opened)
  case Nil
  then show ?case by simp
next
  case (Cons f files)
  show ?case
    using Cons.IH [of _ "opened @ [f]"] Cons.IH [of _ "[f]"]
    by (simp split: sum.splits option.splits)
qed

lemma check_hash_loop_bound:
  assumes "map fs files = map Inr contents"
  shows "check_hash_loop fs (Some h) files opened =
           (Inr (Verdict (list_all (\<lambda>c. sha256 c = h) contents)),
            opened @ take (Suc (length (takeWhile (\<lambda>c. sha256 c = h) contents))) files)"
  using assms
proof (induction files arbitrary: contents opened)
  case Nil
  then show ?case by simp
next
  case (Cons f files)
  then obtain c cs where cs: "contents = c # cs" "fs f = Inr c" "map fs files = map Inr cs"
    by (cases contents) auto
  show ?case
    using Cons.IH [OF cs(3), of "opened @ [f]"] cs by auto
qed


lemma sha256_abc:
  "sha256 [0x61, 0x62, 0x63] =
     [0xba, 0x78, 0x16, 0xbf, 0x8f, 0x01, 0xcf, 0xea, 0x41, 0x41, 0x40, 0xde, 0x5d, 0xae, 0x22, 0x23,
      0xb0, 0x03, 0x61, 0xa3, 0x96, 0x17, 0x7a, 0x9c, 0xb4, 0x10, 0xff, 0x61, 0xf2, 0x00, 0x15, 0xad]"
  by code_simp

lemma sha256_abd:
  "sha256 [0x61, 0x62, 0x64] =
     [0xa5, 0x2d, 0x15, 0x9f, 0x26, 0x2b, 0x2c, 0x6d, 0xdb, 0x72, 0x4a, 0x61, 0x84, 0x0b, 0xef, 0xc3,
      0x6e, 0xb3, 0x0c, 0x88, 0x87, 0x7a, 0x40, 0x30, 0xb6, 0x5c, 0xbe, 0x86, 0x29, 0x84, 0x49, 0xc9]"
  by code_simp

section \<open>check\_hash: verdicts and digests\<close>

text \<open>
  C5. With two or more files, all readable, \<^verbatim>\<open>check_hash\<close> returns a boolean: true
  exactly when the SHA-256 digest of every file equals the digest of the first one.
  It returns at the first file whose digest differs: the files it opened are the files
  up to and including that one (all of them when no digest differs).
\<close>

theorem check_hash_several:
  assumes "2 \<le> length files" and "map fs files = map Inr contents"
  shows "check_hash fs files =
           (Inr (Verdict (list_all (\<lambda>c. sha256 c = sha256 (hd contents)) contents)),
            take (Suc (length (takeWhile (\<lambda>c. sha256 c = sha256 (hd contents)) contents))) files)"
proof -
  from assms obtain f rest c cs where
    f: "files = f # rest" and c: "contents = c # cs" "fs f = Inr c" "map fs rest = map Inr cs"
    by (cases files; cases contents) auto
  show ?thesis
    using assms(1) check_hash_loop_bound [OF c(3), of "sha256 c" "[f]"]
    by (cases rest) (simp_all add: check_hash_def f c)
qed

theorem check_hash_several_witness:
  "2 \<le> length [''a.bin'', ''b.bin'', ''c.bin'']
   \<and> map three_files [''a.bin'', ''b.bin'', ''c.bin''] =
       map Inr [[0x61, 0x62, 0x63], [0x61, 0x62, 0x63], [0x61, 0x62, 0x64]]
   \<and> check_hash three_files [''a.bin'', ''b.bin'', ''c.bin''] =
       (Inr (Verdict False), [''a.bin'', ''b.bin'', ''c.bin''])"
proof -
  have l: "2 \<le> length [''a.bin'', ''b.bin'', ''c.bin'']" by simp
  have m: "map three_files [''a.bin'', ''b.bin'', ''c.bin''] =
             map Inr [[0x61, 0x62, 0x63], [0x61, 0x62, 0x63], [0x61, 0x62, 0x64]]"
    by (simp add: three_files_def)
  show ?thesis
    using check_hash_several [OF l m] m by (simp add: sha256_abc sha256_abd)
qed

text \<open>
  C6. With exactly one readable file, \<^verbatim>\<open>check_hash\<close> returns the SHA-256 digest of the
  bytes of the file as a string of 64 characters, each one of \<open>0123456789abcdef\<close>.
\<close>

theorem check_hash_single:
  assumes "fs f = Inr content"
  shows "check_hash fs [f] = (Inr (Hexdigest (hexlify (sha256 content))), [f])
       \<and> length (hexlify (sha256 content)) = 64
       \<and> set (hexlify (sha256 content)) \<subseteq> set ''0123456789abcdef''"
  using assms set_hexlify [of "sha256 content"]
  by (simp add: check_hash_def length_hexlify length_sha256 del: set_simps)

theorem check_hash_single_witness:
  "three_files ''a.bin'' = Inr [0x61, 0x62, 0x63]
   \<and> check_hash three_files [''a.bin''] =
       (Inr (Hexdigest ''ba7816bf8f01cfea414140de5dae2223b00361a396177a9cb410ff61f20015ad''),
        [''a.bin''])"
proof -
  have r: "three_files ''a.bin'' = Inr [0x61, 0x62, 0x63]"
    by (simp add: three_files_def)
  have h: "hexlify [0xba, 0x78, 0x16, 0xbf, 0x8f, 0x01, 0xcf, 0xea, 0x41, 0x41, 0x40, 0xde, 0x5d,
             0xae, 0x22, 0x23, 0xb0, 0x03, 0x61, 0xa3, 0x96, 0x17, 0x7a, 0x9c, 0xb4, 0x10, 0xff,
             0x61, 0xf2, 0x00, 0x15, 0xad] =
           ''ba7816bf8f01cfea414140de5dae2223b00361a396177a9cb410ff61f20015ad''"
    by code_simp
  show ?thesis
    using check_hash_single [of three_files "''a.bin''" "[0x61, 0x62, 0x63]"] r
    by (simp only: sha256_abc h simp_thms)
qed

text \<open>
  C9. With no file at all, \<^verbatim>\<open>check_hash\<close> returns neither a string nor a boolean: it
  raises \<^verbatim>\<open>IndexError\<close>, and no file has been opened.
\<close>

theorem check_hash_no_files: "check_hash fs [] = (Inl IndexError, [])"
  by (simp add: check_hash_def)

section \<open>read\_cfg: strings and lines\<close>

lemma isspace_newline: "isspace (CHR 0x0A)"
  by (simp add: isspace_def)

lemma not_isspace_punct:
  "\<not> isspace CHR ''[''" "\<not> isspace CHR '']''" "\<not> isspace CHR ''=''"
  by (simp_all add: isspace_def)

lemma rstrip_snoc_space: "isspace c \<Longrightarrow> rstrip (xs @ [c]) = rstrip xs"
  by (simp add: rstrip_def)

lemma rstrip_nonspace: "\<not> isspace c \<Longrightarrow> rstrip (a @ c # v) = a @ c # rstrip v"
  by (simp add: rstrip_def dropWhile_append)

lemma lstrip_nonspace: "\<not> isspace c \<Longrightarrow> lstrip (c # xs) = c # xs"
  by (simp add: lstrip_def)

lemma length_rstrip: "length (rstrip s) \<le> length s"
  using length_dropWhile_le [of isspace "rev s"] by (simp add: rstrip_def)

lemma length_lstrip: "length (lstrip s) \<le> length s"
  by (simp add: lstrip_def length_dropWhile_le)

lemma rstrip_same_length: "length (rstrip s) = length s \<Longrightarrow> rstrip s = s"
proof -
  assume a: "length (rstrip s) = length s"
  have "rev s = takeWhile isspace (rev s) @ dropWhile isspace (rev s)" by simp
  then have "length (rev s) = length (takeWhile isspace (rev s)) + length (dropWhile isspace (rev s))"
    by (metis length_append)
  with a have "takeWhile isspace (rev s) = []" by (simp add: rstrip_def)
  then have "dropWhile isspace (rev s) = rev s"
    by (metis append_Nil takeWhile_dropWhile_id)
  then show ?thesis by (simp add: rstrip_def)
qed

lemma strip_fixed:
  assumes "strip s = s"
  shows "rstrip s = s" and "lstrip s = s"
proof -
  have "length s = length (lstrip (rstrip s))" using assms by (simp add: strip_def)
  also have "\<dots> \<le> length (rstrip s)" by (rule length_lstrip)
  finally have "length (rstrip s) = length s" using length_rstrip [of s] by simp
  then show r: "rstrip s = s" by (rule rstrip_same_length)
  with assms show "lstrip s = s" by (simp add: strip_def)
qed

lemma lstrip_fixed_hd: "lstrip s = s \<Longrightarrow> s \<noteq> [] \<Longrightarrow> \<not> isspace (hd s)"
proof (cases s)
  case Nil
  then show "s \<noteq> [] \<Longrightarrow> ?thesis" by simp
next
  case (Cons a list)
  assume f: "lstrip s = s"
  show ?thesis
  proof
    assume "isspace (hd s)"
    then have "lstrip s = dropWhile isspace list" by (simp add: Cons lstrip_def)
    then have "length (lstrip s) \<le> length list" by (simp add: length_dropWhile_le)
    with f Cons show False by simp
  qed
qed

lemma find_char_append_hit:
  "find_char P xs = None \<Longrightarrow> P c \<Longrightarrow> find_char P (xs @ c # ys) = Some (length xs)"
  by (induction xs) (auto split: if_splits)

lemma find_char_hd: "s \<noteq> [] \<Longrightarrow> P (hd s) \<Longrightarrow> find_char P (s @ t) = Some 0"
  by (cases s) auto

lemma rindex_snoc: "rindex (xs @ [c]) c = Some (length xs)"
  by (induction xs) auto

lemma lower_char_idem: "lower_char (lower_char c) = lower_char c"
  by (auto simp: lower_char_def Let_def)

lemma optionxform_idem: "optionxform (optionxform s) = optionxform s"
  by (simp add: optionxform_def lower_def lower_char_idem)

lemma optionxform_Nil_iff: "optionxform s = [] \<longleftrightarrow> s = []"
  by (simp add: optionxform_def lower_def)

subsection \<open>Lines\<close>

lemma universal_newlines_id: "CHR 0x0D \<notin> set t \<Longrightarrow> universal_newlines t = t"
  by (induction t rule: universal_newlines.induct) auto

lemma readlines_Nil_iff: "readlines s = [] \<longleftrightarrow> s = []"
  by (cases s) (auto split: list.splits)

lemma readlines_line: "CHR 0x0A \<notin> set l \<Longrightarrow> readlines (l @ CHR 0x0A # rest) = (l @ [CHR 0x0A]) # readlines rest"
  by (induction l) auto

section \<open>read\_cfg: what a line of create\_cfg is to the parser\<close>

lemma strip_blank: "strip [CHR 0x0A] = []"
  by (simp add: strip_def rstrip_def lstrip_def isspace_def)

lemma not_comment_blank: "\<not> is_comment [CHR 0x0A]"
  by (simp add: is_comment_def strip_blank startswith_def)

lemma read_line_blank:
  "read_line st [CHR 0x0A] =
     (if cursect st \<noteq> NoSection \<and> truthy (optname st)
      then Inr (cursect_append st (the (optname st)) []) else Inr st)"
  by (simp add: read_line_def not_comment_blank strip_blank Let_def)

lemma read_line_plain:
  assumes "strip l = v" and "v \<noteq> []" and "\<not> is_comment l" and "cur_indent_level l = 0"
  shows "read_line st l =
           (case sectcre_match v of
              Some header \<Rightarrow> read_header (st\<lparr>indent_level := 0\<rparr>) header
            | None \<Rightarrow>
                if cursect st = NoSection then Inl MissingSectionHeaderError
                else
                  (case optcre_match v of
                     Some (option, optval) \<Rightarrow> read_option (st\<lparr>indent_level := 0\<rparr>) option optval
                   | None \<Rightarrow> Inr (st\<lparr>indent_level := 0, rs_e := True\<rparr>)))"
  using assms by (simp add: read_line_def Let_def split: option.splits)

lemma strip_header: "strip (''['' @ s @ '']'' @ [CHR 0x0A]) = ''['' @ s @ '']''"
proof -
  have "rstrip (''['' @ s @ '']'' @ [CHR 0x0A]) = rstrip ((''['' @ s @ '']'') @ [CHR 0x0A])" by simp
  also have "\<dots> = rstrip (''['' @ s @ '']'')" by (rule rstrip_snoc_space [OF isspace_newline])
  also have "\<dots> = rstrip ((''['' @ s) @ CHR '']'' # [])" by simp
  also have "\<dots> = (''['' @ s) @ CHR '']'' # rstrip []"
    by (rule rstrip_nonspace) (simp add: isspace_def)
  finally have "rstrip (''['' @ s @ '']'' @ [CHR 0x0A]) = ''['' @ s @ '']''"
    by (simp add: rstrip_def)
  then show ?thesis by (simp add: strip_def lstrip_def isspace_def)
qed

lemma sectcre_match_header: "s \<noteq> [] \<Longrightarrow> sectcre_match (''['' @ s @ '']'') = Some s"
  by (simp add: sectcre_match_def rindex_snoc Suc_le_eq)

lemma read_line_header:
  assumes "s \<noteq> []"
  shows "read_line st (''['' @ s @ '']'' @ [CHR 0x0A]) = read_header (st\<lparr>indent_level := 0\<rparr>) s"
proof -
  let ?l = "''['' @ s @ '']'' @ [CHR 0x0A]"
  have c: "\<not> is_comment ?l"
    unfolding is_comment_def strip_header by (simp add: startswith_def)
  have i: "cur_indent_level ?l = 0"
    by (simp add: cur_indent_level_def isspace_def)
  have "read_line st ?l = (case sectcre_match (''['' @ s @ '']'') of
              Some header \<Rightarrow> read_header (st\<lparr>indent_level := 0\<rparr>) header
            | None \<Rightarrow>
                if cursect st = NoSection then Inl MissingSectionHeaderError
                else
                  (case optcre_match (''['' @ s @ '']'') of
                     Some (option, optval) \<Rightarrow> read_option (st\<lparr>indent_level := 0\<rparr>) option optval
                   | None \<Rightarrow> Inr (st\<lparr>indent_level := 0, rs_e := True\<rparr>)))"
    by (rule read_line_plain [OF strip_header _ c i]) simp
  then show ?thesis
    by (simp only: sectcre_match_header [OF assms] option.case)
qed

lemma strip_option_line:
  assumes "valid_option_name name" and "valid_value v"
  shows "strip (option_line (name, v)) = name @ ''='' @ v"
proof -
  from assms have n: "name \<noteq> []" "lstrip name = name" and v: "rstrip v = v"
    by (auto simp: valid_option_name_def valid_value_def strip_fixed)
  have "rstrip (option_line (name, v)) = rstrip ((name @ ''='' @ v) @ [CHR 0x0A])"
    by (simp add: option_line_def)
  also have "\<dots> = rstrip (name @ CHR ''='' # v)"
    using rstrip_snoc_space [OF isspace_newline, of "name @ ''='' @ v"] by simp
  also have "\<dots> = name @ CHR ''='' # rstrip v"
    by (rule rstrip_nonspace) (simp add: isspace_def)
  finally have r: "rstrip (option_line (name, v)) = name @ ''='' @ v" using v by simp
  from n have "\<not> isspace (hd name)" by (simp add: lstrip_fixed_hd)
  with n have "lstrip (name @ ''='' @ v) = name @ ''='' @ v"
    by (cases name) (simp_all add: lstrip_def)
  with r show ?thesis by (simp add: strip_def)
qed

lemma optcre_match_option:
  assumes "valid_option_name name" and "valid_value v"
  shows "optcre_match (name @ ''='' @ v) = Some (name, v)"
proof -
  from assms have d: "find_char is_delimiter name = None" and r: "rstrip name = name"
    and l: "lstrip v = v"
    by (auto simp: valid_option_name_def valid_value_def strip_fixed)
  have "find_char is_delimiter (name @ CHR ''='' # v) = Some (length name)"
    by (rule find_char_append_hit [OF d]) (simp add: is_delimiter_def)
  then show ?thesis by (simp add: optcre_match_def r l)
qed

lemma read_line_option:
  assumes "valid_option_name name" and "valid_value v" and "cursect st \<noteq> NoSection"
  shows "read_line st (option_line (name, v)) = read_option (st\<lparr>indent_level := 0\<rparr>) name v"
proof -
  let ?l = "option_line (name, v)"
  from assms have n: "name \<noteq> []" "lstrip name = name" and h: "hd name \<notin> set ''#;[''"
    by (auto simp: valid_option_name_def strip_fixed)
  then obtain c cs where name: "name = c # cs" by (cases name) auto
  with n h have c: "\<not> isspace c" "c \<noteq> CHR ''#''" "c \<noteq> CHR '';''" "c \<noteq> CHR ''[''"
    using lstrip_fixed_hd [of name] by auto
  have s: "strip ?l = name @ ''='' @ v" by (rule strip_option_line [OF assms(1,2)])
  have cm: "\<not> is_comment ?l"
    unfolding is_comment_def s using c by (simp add: startswith_def name)
  have i: "cur_indent_level ?l = 0"
    using c by (simp add: cur_indent_level_def option_line_def name)
  have sm: "sectcre_match (name @ ''='' @ v) = None"
    using c by (simp add: sectcre_match_def name)
  have "name @ ''='' @ v \<noteq> []" using n by simp
  from read_line_plain [OF s this cm i, of st] show ?thesis
    using assms(3) by (simp only: sm optcre_match_option [OF assms(1,2)] option.case prod.case if_False)
qed

section \<open>read\_cfg: the parser, one line at a time\<close>

subsection \<open>Dictionaries\<close>

lemma dict_set_fresh: "k \<notin> fst ` set d \<Longrightarrow> dict_set k v d = d @ [(k, v)]"
  by (induction d) auto

lemma dict_set_append_last: "k \<notin> fst ` set d \<Longrightarrow> dict_set k v (d @ [(k, w)]) = d @ [(k, v)]"
  by (induction d) auto

lemma map_of_append_last: "k \<notin> fst ` set d \<Longrightarrow> map_of (d @ [(k, w)]) k = Some w"
  by (induction d) auto

lemma fst_joined: "fst ` set (joined secs) = fst ` set secs"
  by (force simp: joined_def)

lemma joined_append: "joined (a @ b) = joined a @ joined b"
  by (simp add: joined_def)

lemma fst_lists_of: "fst ` set (lists_of d) = fst ` set d"
  by (force simp: lists_of_def)

lemma lists_of_append: "lists_of (a @ b) = lists_of a @ lists_of b"
  by (simp add: lists_of_def)

lemma join_value_single: "join_value [v] = rstrip v"
  by (simp add: join_value_def)

lemma join_value_blank: "join_value [v, []] = rstrip v"
  using rstrip_snoc_space [OF isspace_newline, of v] by (simp add: join_value_def)

lemma joined_lists_of:
  "list_all (\<lambda>ov. P (fst ov) \<and> rstrip (snd ov) = snd ov) cur \<Longrightarrow>
   map (\<lambda>(name, val). (name, join_value val)) (lists_of cur) = cur"
  by (induction cur) (auto simp: lists_of_def join_value_single)

subsection \<open>Steps\<close>

lemma step_option:
  assumes inv: "in_section st d s cur"
    and name: "valid_option_name name" and v: "valid_value v"
    and fresh: "optionxform name \<notin> fst ` set cur"
  shows "\<exists>st'. read_line st (option_line (name, v)) = Inr st'
               \<and> in_section st' d s (cur @ [(optionxform name, v)])"
proof -
  from inv obtain secs where secs: "rs_sections st = secs @ [(s, lists_of cur)]" "joined secs = d"
    and cs: "cursect st = InSection s" and sn: "sectname st = Some s"
    and rest: "rs_defaults st = []" "\<not> rs_e st" "s \<notin> fst ` set d" "distinct (map fst cur)"
      "list_all (\<lambda>ov. fst ov \<noteq> [] \<and> rstrip (snd ov) = snd ov) cur"
    and el: "\<forall>s' n'. OptionElement s' n' \<in> set (elements_added st) \<longrightarrow>
            s' \<in> fst ` set d \<or> (s' = s \<and> n' \<in> fst ` set cur)"
    unfolding in_section_def by blast
  let ?n = "optionxform name"
  from name v have nn: "name \<noteq> []" "rstrip name = name" and vv: "strip v = v" "rstrip v = v"
    by (auto simp: valid_option_name_def valid_value_def strip_fixed)
  have sfresh: "s \<notin> fst ` set secs" using secs(2) rest(3) fst_joined [of secs] by simp
  have notin: "OptionElement s ?n \<notin> set (elements_added st)"
    using el rest(3) fresh by blast
  have m: "map_of (rs_sections st) s = Some (lists_of cur)"
    by (simp only: secs(1) map_of_append_last [OF sfresh])
  have nfresh: "?n \<notin> fst ` set (lists_of cur)" using fresh by (simp add: fst_lists_of)
  have upd: "dict_set s (dict_set ?n [v] (lists_of cur)) (rs_sections st)
               = secs @ [(s, lists_of (cur @ [(?n, v)]))]"
    by (simp only: secs(1) dict_set_append_last [OF sfresh] dict_set_fresh [OF nfresh])
       (simp add: lists_of_def)
  define st' where "st' = st\<lparr>indent_level := 0, optname := Some ?n,
      elements_added := elements_added st @ [OptionElement s ?n],
      rs_sections := secs @ [(s, lists_of (cur @ [(?n, v)]))]\<rparr>"
  have cne: "cursect st \<noteq> NoSection" using cs by simp
  have "read_line st (option_line (name, v)) = read_option (st\<lparr>indent_level := 0\<rparr>) name v"
    by (rule read_line_option [OF name v cne])
  also have "\<dots> = Inr st'"
    using nn vv notin m upd cs sn
    by (simp add: read_option_def Let_def cursect_set_def st'_def)
  finally have r: "read_line st (option_line (name, v)) = Inr st'" .
  have "in_section st' d s (cur @ [(?n, v)])"
    unfolding in_section_def
    using secs(2) rest cs sn el nn vv fresh
    by (auto simp: st'_def optionxform_Nil_iff)
  with r show ?thesis by blast
qed

lemma step_blank:
  assumes inv: "in_section st d s cur"
  shows "\<exists>st'. read_line st [CHR 0x0A] = Inr st' \<and> after_blank st' (d @ [(s, cur)])"
proof -
  from inv obtain secs where secs: "rs_sections st = secs @ [(s, lists_of cur)]" "joined secs = d"
    and cs: "cursect st = InSection s"
    and on: "optname st = (if cur = [] then None else Some (fst (last cur)))"
    and rest: "rs_defaults st = []" "\<not> rs_e st" "s \<notin> fst ` set d" "distinct (map fst cur)"
    and la: "list_all (\<lambda>ov. fst ov \<noteq> [] \<and> rstrip (snd ov) = snd ov) cur"
    and el: "\<forall>s' n'. OptionElement s' n' \<in> set (elements_added st) \<longrightarrow>
            s' \<in> fst ` set d \<or> (s' = s \<and> n' \<in> fst ` set cur)"
    unfolding in_section_def by blast
  have sfresh: "s \<notin> fst ` set secs" using secs(2) rest(3) fst_joined [of secs] by simp
  have j: "map (\<lambda>(name, val). (name, join_value val)) (lists_of cur) = cur"
    by (rule joined_lists_of [OF la])
  show ?thesis
  proof (cases "cur = []")
    case True
    then have "read_line st [CHR 0x0A] = Inr st"
      using on by (simp add: read_line_blank truthy_def)
    moreover have "after_blank st (d @ [(s, cur)])"
      unfolding after_blank_def using secs rest el True
      by (auto simp: joined_def lists_of_def)
    ultimately show ?thesis by blast
  next
    case False
    then obtain cur0 n v where cur: "cur = cur0 @ [(n, v)]"
      by (metis rev_exhaust surj_pair)
    from la cur have n: "n \<noteq> []" and v: "rstrip v = v" and la0:
      "list_all (\<lambda>ov. fst ov \<noteq> [] \<and> rstrip (snd ov) = snd ov) cur0" by auto
    from rest(4) cur have nfresh: "n \<notin> fst ` set (lists_of cur0)"
      by (auto simp: fst_lists_of)
    have l: "lists_of cur = lists_of cur0 @ [(n, [v])]" by (simp add: cur lists_of_def)
    have m: "map_of (rs_sections st) s = Some (lists_of cur)"
      by (simp only: secs(1) map_of_append_last [OF sfresh])
    have g: "map_of (lists_of cur) n = Some [v]"
      by (simp only: l map_of_append_last [OF nfresh])
    define st' where "st' = st\<lparr>rs_sections := secs @ [(s, lists_of cur0 @ [(n, [v, []])])]\<rparr>"
    have upd: "dict_set s (dict_set n [v, []] (lists_of cur)) (rs_sections st)
                 = secs @ [(s, lists_of cur0 @ [(n, [v, []])])]"
      by (simp only: secs(1) l dict_set_append_last [OF sfresh] dict_set_append_last [OF nfresh])
    have "read_line st [CHR 0x0A] = Inr (cursect_append st n [])"
      using on cs n cur by (simp add: read_line_blank truthy_def)
    also have "cursect_append st n [] = st'"
      using cs m g upd by (simp add: cursect_append_def cursect_get_def cursect_set_def st'_def)
    finally have r: "read_line st [CHR 0x0A] = Inr st'" .
    have j0: "map (\<lambda>(name, val). (name, join_value val)) (lists_of cur0) = cur0"
      by (rule joined_lists_of [OF la0])
    have "joined (rs_sections st') = d @ [(s, cur)]"
      using secs(2) j0 v by (simp add: st'_def joined_def cur join_value_blank)
    then have "after_blank st' (d @ [(s, cur)])"
      unfolding after_blank_def using rest el by (auto simp: st'_def)
    with r show ?thesis by blast
  qed
qed

lemma step_header:
  assumes ab: "after_blank st d" and s: "valid_section_name s" and fresh: "s \<notin> fst ` set d"
  shows "\<exists>st'. read_line st (''['' @ s @ '']'' @ [CHR 0x0A]) = Inr st' \<and> in_section st' d s []"
proof -
  from s have ne: "s \<noteq> []" and nd: "s \<noteq> DEFAULTSECT" by (auto simp: valid_section_name_def)
  from ab have j: "joined (rs_sections st) = d" and rest: "rs_defaults st = []" "\<not> rs_e st"
    and el: "\<forall>s' n'. OptionElement s' n' \<in> set (elements_added st) \<longrightarrow> s' \<in> fst ` set d"
    unfolding after_blank_def by auto
  have sfresh: "s \<notin> fst ` set (rs_sections st)" using j fresh fst_joined [of "rs_sections st"] by simp
  define st' where "st' = st\<lparr>indent_level := 0, sectname := Some s, cursect := InSection s,
                 rs_sections := rs_sections st @ [(s, [])],
                 elements_added := elements_added st @ [SectionElement s],
                 optname := None\<rparr>"
  have "read_line st (''['' @ s @ '']'' @ [CHR 0x0A]) = read_header (st\<lparr>indent_level := 0\<rparr>) s"
    by (rule read_line_header [OF ne])
  also have "\<dots> = Inr st'"
    using sfresh nd by (simp add: read_header_def st'_def)
  finally have r: "read_line st (''['' @ s @ '']'' @ [CHR 0x0A]) = Inr st'" .
  have "in_section st' d s []"
    unfolding in_section_def using j rest el fresh by (auto simp: st'_def lists_of_def)
  with r show ?thesis by blast
qed

lemma initial_blank:
  "read_line initial_state [CHR 0x0A] = Inr initial_state \<and> after_blank initial_state []"
  by (simp add: read_line_blank initial_state_def after_blank_def joined_def)

lemma ready_blank:
  assumes "ready st d"
  shows "\<exists>st'. read_line st [CHR 0x0A] = Inr st' \<and> after_blank st' d"
  using assms initial_blank step_blank unfolding ready_def by blast

section \<open>read\_cfg: reading the text that create\_cfg writes\<close>

lemma option_line_split: "option_line ov = (fst ov @ ''='' @ snd ov) @ [CHR 0x0A]"
  by (simp add: option_line_def)

lemma readlines_blank: "readlines (CHR 0x0A # rest) = [CHR 0x0A] # readlines rest"
  by simp

declare readlines.simps [simp del]

lemma readlines_option_lines:
  assumes "list_all (\<lambda>ov. valid_option_name (fst ov) \<and> valid_value (snd ov)) opts"
  shows "readlines (concat (map option_line opts) @ rest) = map option_line opts @ readlines rest"
  using assms
proof (induction opts)
  case Nil
  then show ?case by simp
next
  case (Cons ov opts)
  then have n: "CHR 0x0A \<notin> set (fst ov @ ''='' @ snd ov)"
    by (simp add: valid_option_name_def valid_value_def no_linebreak_def)
  from Cons have IH: "readlines (concat (map option_line opts) @ rest) = map option_line opts @ readlines rest"
    by simp
  have "readlines (concat (map option_line (ov # opts)) @ rest)
          = readlines ((fst ov @ ''='' @ snd ov) @ CHR 0x0A # (concat (map option_line opts) @ rest))"
    by (rule arg_cong [where f = readlines]) (simp add: option_line_split)
  also have "\<dots> = ((fst ov @ ''='' @ snd ov) @ [CHR 0x0A]) # readlines (concat (map option_line opts) @ rest)"
    by (rule readlines_line [OF n])
  also have "\<dots> = option_line ov # (map option_line opts @ readlines rest)"
    unfolding IH by (simp add: option_line_split)
  finally show ?case by simp
qed

lemma readlines_section:
  assumes "valid_section sec"
  shows "readlines (section_line (fst sec) @ concat (map option_line (snd sec)) @ rest)
           = section_lines sec @ readlines rest"
proof -
  from assms have n: "CHR 0x0A \<notin> set (''['' @ fst sec @ '']'')"
    and o: "list_all (\<lambda>ov. valid_option_name (fst ov) \<and> valid_value (snd ov)) (snd sec)"
    by (simp_all add: valid_section_def valid_section_name_def no_linebreak_def)
  let ?rest = "concat (map option_line (snd sec)) @ rest"
  have "readlines (section_line (fst sec) @ ?rest)
          = readlines (CHR 0x0A # ((''['' @ fst sec @ '']'') @ CHR 0x0A # ?rest))"
    by (rule arg_cong [where f = readlines]) (simp add: section_line_def)
  also have "\<dots> = [CHR 0x0A] # readlines ((''['' @ fst sec @ '']'') @ CHR 0x0A # ?rest)"
    by (rule readlines_blank)
  also have "readlines ((''['' @ fst sec @ '']'') @ CHR 0x0A # ?rest)
               = ((''['' @ fst sec @ '']'') @ [CHR 0x0A]) # readlines ?rest"
    by (rule readlines_line [OF n])
  also have "readlines ?rest = map option_line (snd sec) @ readlines rest"
    by (rule readlines_option_lines [OF o])
  finally show ?thesis by (simp add: section_lines_def)
qed

lemma cfg_text_Cons:
  "cfg_text (sec # doc) = section_line (fst sec) @ concat (map option_line (snd sec)) @ cfg_text doc"
  by (simp add: cfg_text_def case_prod_beta)

lemma readlines_cfg_text:
  "list_all valid_section doc \<Longrightarrow> readlines (cfg_text doc) = concat (map section_lines doc)"
proof (induction doc)
  case Nil
  then show ?case by (simp add: cfg_text_def readlines.simps)
next
  case (Cons sec doc)
  then have v: "valid_section sec" and IH: "readlines (cfg_text doc) = concat (map section_lines doc)"
    by simp_all
  have "readlines (cfg_text (sec # doc))
          = readlines (section_line (fst sec) @ concat (map option_line (snd sec)) @ cfg_text doc)"
    by (simp only: cfg_text_Cons)
  also have "\<dots> = section_lines sec @ readlines (cfg_text doc)"
    by (rule readlines_section [OF v])
  finally show ?case by (simp add: IH)
qed

lemma no_cr_option_line:
  "valid_option_name (fst ov) \<Longrightarrow> valid_value (snd ov) \<Longrightarrow> CHR 0x0D \<notin> set (option_line ov)"
  by (simp add: option_line_def valid_option_name_def valid_value_def no_linebreak_def)

lemma no_cr_option_lines:
  "list_all (\<lambda>ov. valid_option_name (fst ov) \<and> valid_value (snd ov)) opts \<Longrightarrow>
   CHR 0x0D \<notin> set (concat (map option_line opts))"
  by (induction opts) (simp_all add: no_cr_option_line del: set_concat)

lemma no_cr_cfg_text:
  "list_all valid_section doc \<Longrightarrow> CHR 0x0D \<notin> set (cfg_text doc)"
proof (induction doc)
  case Nil
  then show ?case by (simp add: cfg_text_def)
next
  case (Cons sec doc)
  then have v: "valid_section sec" and IH: "CHR 0x0D \<notin> set (cfg_text doc)" by simp_all
  from v have "CHR 0x0D \<notin> set (section_line (fst sec))"
    by (simp add: section_line_def valid_section_def valid_section_name_def no_linebreak_def)
  moreover from v have "CHR 0x0D \<notin> set (concat (map option_line (snd sec)))"
    by (intro no_cr_option_lines) (simp add: valid_section_def)
  ultimately show ?case using IH by (simp only: cfg_text_Cons set_append Un_iff) simp
qed

subsection \<open>Reading the lines\<close>

lemma read_lines_append:
  "read_lines st (xs @ ys) =
     (case read_lines st xs of Inl err \<Rightarrow> Inl err | Inr st' \<Rightarrow> read_lines st' ys)"
  by (induction xs arbitrary: st) (auto split: sum.splits)

lemma read_option_lines:
  assumes "in_section st d s cur"
    and "list_all (\<lambda>ov. valid_option_name (fst ov) \<and> valid_value (snd ov)) opts"
    and "distinct (map fst cur @ map (\<lambda>ov. optionxform (fst ov)) opts)"
  shows "\<exists>st'. read_lines st (map option_line opts) = Inr st'
               \<and> in_section st' d s (cur @ map (\<lambda>ov. (optionxform (fst ov), snd ov)) opts)"
  using assms
proof (induction opts arbitrary: st cur)
  case Nil
  then show ?case by simp
next
  case (Cons ov opts)
  from Cons.prems have n: "valid_option_name (fst ov)" and v: "valid_value (snd ov)"
    and f: "optionxform (fst ov) \<notin> fst ` set cur" by auto
  from step_option [OF Cons.prems(1) n v f] obtain st1 where
    r: "read_line st (option_line ov) = Inr st1"
    and i: "in_section st1 d s (cur @ [(optionxform (fst ov), snd ov)])" by auto
  from Cons.prems have la: "list_all (\<lambda>ov. valid_option_name (fst ov) \<and> valid_value (snd ov)) opts"
    and di: "distinct (map fst (cur @ [(optionxform (fst ov), snd ov)]) @ map (\<lambda>ov. optionxform (fst ov)) opts)"
    by auto
  from Cons.IH [OF i la di] r show ?case by auto
qed

lemma read_section:
  assumes rd: "ready st d" and v: "valid_section sec" and fresh: "fst sec \<notin> fst ` set d"
  shows "\<exists>st'. read_lines st (section_lines sec) = Inr st'
               \<and> in_section st' d (fst sec) (map (\<lambda>ov. (optionxform (fst ov), snd ov)) (snd sec))"
proof -
  from v have sn: "valid_section_name (fst sec)"
    and la: "list_all (\<lambda>ov. valid_option_name (fst ov) \<and> valid_value (snd ov)) (snd sec)"
    and di: "distinct (map fst [] @ map (\<lambda>ov. optionxform (fst ov)) (snd sec))"
    by (auto simp: valid_section_def)
  from ready_blank [OF rd] obtain st1 where
    r1: "read_line st [CHR 0x0A] = Inr st1" and a: "after_blank st1 d" by auto
  from step_header [OF a sn fresh] obtain st2 where
    r2: "read_line st1 (''['' @ fst sec @ '']'' @ [CHR 0x0A]) = Inr st2"
    and i: "in_section st2 d (fst sec) []" by auto
  from read_option_lines [OF i la di] obtain st3 where
    r3: "read_lines st2 (map option_line (snd sec)) = Inr st3"
    and i3: "in_section st3 d (fst sec) (map (\<lambda>ov. (optionxform (fst ov), snd ov)) (snd sec))"
    by auto
  from r1 r2 r3 have "read_lines st (section_lines sec) = Inr st3"
    by (simp add: section_lines_def)
  with i3 show ?thesis by blast
qed

lemma read_document:
  assumes "ready st d" and "list_all valid_section doc" and "distinct (map fst d @ map fst doc)"
  shows "\<exists>st'. read_lines st (concat (map section_lines doc)) = Inr st'
               \<and> ready st' (d @ lower_options doc)"
  using assms
proof (induction doc arbitrary: st d)
  case Nil
  then show ?case by (simp add: lower_options_def)
next
  case (Cons sec doc)
  from Cons.prems have v: "valid_section sec" and f: "fst sec \<notin> fst ` set d" by auto
  from read_section [OF Cons.prems(1) v f] obtain st1 where
    r: "read_lines st (section_lines sec) = Inr st1"
    and i: "in_section st1 d (fst sec) (map (\<lambda>ov. (optionxform (fst ov), snd ov)) (snd sec))"
    by auto
  let ?d = "d @ [(fst sec, map (\<lambda>ov. (optionxform (fst ov), snd ov)) (snd sec))]"
  from i have rd: "ready st1 ?d" unfolding ready_def by blast
  from Cons.prems have la: "list_all valid_section doc"
    and di: "distinct (map fst ?d @ map fst doc)" by auto
  from Cons.IH [OF rd la di] obtain st2 where
    r2: "read_lines st1 (concat (map section_lines doc)) = Inr st2"
    and rd2: "ready st2 (?d @ lower_options doc)" by auto
  from r r2 have "read_lines st (concat (map section_lines (sec # doc))) = Inr st2"
    by (simp add: read_lines_append)
  with rd2 show ?case by (auto simp: lower_options_def)
qed

lemma ready_join:
  assumes "ready st d"
  shows "\<not> rs_e st \<and> join_multiline_values st = \<lparr>cp_sections = d, cp_defaults = []\<rparr>"
proof -
  from assms consider "st = initial_state" "d = []"
    | d0 s cur where "in_section st d0 s cur" "d = d0 @ [(s, cur)]"
    unfolding ready_def by blast
  then show ?thesis
  proof cases
    case 1
    then show ?thesis by (simp add: initial_state_def join_multiline_values_def)
  next
    case 2
    from 2(1) obtain secs where secs: "rs_sections st = secs @ [(s, lists_of cur)]" "joined secs = d0"
      and rest: "rs_defaults st = []" "\<not> rs_e st"
      and la: "list_all (\<lambda>ov. fst ov \<noteq> [] \<and> rstrip (snd ov) = snd ov) cur"
      unfolding in_section_def by blast
    have "joined (rs_sections st) = d"
      using secs joined_lists_of [OF la] 2(2) by (simp add: joined_def)
    then show ?thesis using rest by (simp add: join_multiline_values_def joined_def)
  qed
qed

lemma cp_read_text_cfg_text:
  assumes "valid_document doc"
  shows "cp_read_text (cfg_text doc) = Inr \<lparr>cp_sections = lower_options doc, cp_defaults = []\<rparr>"
proof -
  from assms have la: "list_all valid_section doc" and di: "distinct (map fst [] @ map fst doc)"
    by (auto simp: valid_document_def is_dict_def)
  have rd: "ready initial_state []" by (simp add: ready_def)
  from read_document [OF rd la di] obtain st where
    r: "read_lines initial_state (concat (map section_lines doc)) = Inr st"
    and rd': "ready st (lower_options doc)" by auto
  from ready_join [OF rd'] r show ?thesis
    by (simp add: cp_read_text_def readlines_cfg_text [OF la])
qed

section \<open>read\_cfg: getting the values back\<close>

lemma find_char_None: "\<forall>c \<in> set s. \<not> P c \<Longrightarrow> find_char P s = None"
  by (induction s) auto

declare interpolate_some.simps [simp del]

lemma interpolate_plain:
  assumes "CHR ''%'' \<notin> set v"
  shows "interpolate_some m v 1 = Inr v"
proof -
  have f: "find_char (\<lambda>c. c = CHR ''%'') v = None"
    by (rule find_char_None) (use assms in auto)
  show ?thesis
    by (subst interpolate_some.simps) (simp add: MAX_INTERPOLATION_DEPTH_def f)
qed

lemma cp_get_plain:
  assumes "map_of (cp_sections config) s = Some d" and "map_of d k = Some v"
    and "optionxform k = k" and "CHR ''%'' \<notin> set v"
  shows "cp_get config s k = Inr v"
  using assms by (simp add: cp_get_def unify_values_def interpolate_plain del: One_nat_def)

lemma read_options_plain:
  assumes "map_of (cp_sections config) s = Some d" and "plain_section (s, d)"
    and "set d' \<subseteq> set d" and "distinct (map fst acc @ map fst d')"
  shows "read_options config s (map fst d') acc = Inr (acc @ d')"
  using assms(3,4)
proof (induction d' arbitrary: acc)
  case Nil
  then show ?case by simp
next
  case (Cons kv d')
  obtain k v where kv: "kv = (k, v)" by (cases kv)
  from Cons.prems kv have mem: "(k, v) \<in> set d" by simp
  from assms(2) have di: "distinct (map fst d)"
    and la: "list_all (\<lambda>ov. optionxform (fst ov) = fst ov \<and> CHR ''%'' \<notin> set (snd ov)) d"
    by (simp_all add: plain_section_def)
  from di mem have m: "map_of d k = Some v" by simp
  from la mem have p: "optionxform k = k" "CHR ''%'' \<notin> set v"
    by (auto simp: list_all_iff)
  have g: "cp_get config s k = Inr v" by (rule cp_get_plain [OF assms(1) m p])
  from Cons.prems kv have f: "k \<notin> fst ` set acc" by auto
  from Cons.prems kv have "set d' \<subseteq> set d" "distinct (map fst (acc @ [(k, v)]) @ map fst d')"
    by auto
  from Cons.IH [OF this] show ?case
    by (simp add: kv g dict_set_fresh [OF f])
qed

lemma cp_options_plain:
  assumes "map_of (cp_sections config) s = Some d" and "cp_defaults config = []"
  shows "cp_options config s = Inr (map fst d)"
  using assms by (simp add: cp_options_def)

lemma read_sections_plain:
  assumes "cp_defaults config = []" and "distinct (map fst (cp_sections config))"
    and "list_all plain_section (cp_sections config)"
    and "set D' \<subseteq> set (cp_sections config)" and "distinct (map fst acc @ map fst D')"
  shows "read_sections config (map fst D') acc = Inr (acc @ D')"
  using assms(4,5)
proof (induction D' arbitrary: acc)
  case Nil
  then show ?case by simp
next
  case (Cons sec D')
  obtain s d where sec: "sec = (s, d)" by (cases sec)
  from Cons.prems sec have mem: "(s, d) \<in> set (cp_sections config)" by simp
  with assms(2) have m: "map_of (cp_sections config) s = Some d" by simp
  from assms(3) mem have p: "plain_section (s, d)" by (auto simp: list_all_iff)
  from p have "distinct (map fst [] @ map fst d)" by (simp add: plain_section_def)
  from read_options_plain [OF m p subset_refl this]
  have ro: "read_options config s (map fst d) [] = Inr d" by simp
  from Cons.prems sec have f: "s \<notin> fst ` set acc" by auto
  from Cons.prems sec have "set D' \<subseteq> set (cp_sections config)"
    "distinct (map fst (acc @ [(s, d)]) @ map fst D')" by auto
  from Cons.IH [OF this] show ?case
    by (simp add: sec cp_options_plain [OF m assms(1)] ro dict_set_fresh [OF f])
qed

lemma plain_lower_options:
  assumes "valid_document doc"
  shows "distinct (map fst (lower_options doc))" and "list_all plain_section (lower_options doc)"
proof -
  from assms show "distinct (map fst (lower_options doc))"
    by (simp add: valid_document_def is_dict_def lower_options_def comp_def)
  have "plain_section (fst sec, map (\<lambda>ov. (optionxform (fst ov), snd ov)) (snd sec))"
    if "valid_section sec" for sec
    using that
    by (auto simp: plain_section_def valid_section_def comp_def list_all_iff optionxform_idem
        valid_value_def)
  with assms show "list_all plain_section (lower_options doc)"
    by (auto simp: valid_document_def lower_options_def list_all_iff)
qed

lemma read_cfg_written:
  assumes v: "valid_document doc" and w: "create_cfg fs f doc = Inr fs'"
  shows "read_cfg fs' f = Inr (lower_options doc)"
proof -
  from w have t: "file_text fs' f = Inr (cfg_text doc)"
    by (auto simp: create_cfg_def split: option.splits)
  from v have la: "list_all valid_section doc" by (simp add: valid_document_def)
  let ?c = "\<lparr>cp_sections = lower_options doc, cp_defaults = []\<rparr>"
  have r: "cp_read fs' f = Inr ?c"
    by (simp add: cp_read_def t universal_newlines_id [OF no_cr_cfg_text [OF la]]
        cp_read_text_cfg_text [OF v])
  have "read_sections ?c (map fst (lower_options doc)) [] = Inr ([] @ lower_options doc)"
    by (rule read_sections_plain) (simp_all add: plain_lower_options [OF v])
  with r show ?thesis by (simp add: read_cfg_def cp_section_names_def)
qed

section \<open>read\_cfg: every option name returned is in lower case\<close>

lemma lower_keys_dict_set:
  "lower_keys d \<Longrightarrow> optionxform k = k \<Longrightarrow> lower_keys (dict_set k v d)"
  unfolding lower_keys_def by (induction d) auto

lemma list_all_dict_set:
  "list_all (\<lambda>sec. P (snd sec)) secs \<Longrightarrow> P d \<Longrightarrow> list_all (\<lambda>sec. P (snd sec)) (dict_set s d secs)"
  by (induction secs) auto

lemma list_all_map_of:
  "list_all (\<lambda>sec. P (snd sec)) secs \<Longrightarrow> map_of secs s = Some d \<Longrightarrow> P d"
proof -
  assume a: "list_all (\<lambda>sec. P (snd sec)) secs" and m: "map_of secs s = Some d"
  from m have "(s, d) \<in> set secs" by (rule map_of_SomeD)
  with a have "P (snd (s, d))" unfolding list_all_iff by blast
  then show ?thesis by simp
qed

lemma lower_state_cursect_set:
  assumes "lower_state st" and "optionxform name = name"
  shows "lower_state (cursect_set st name val)"
proof (cases "cursect st")
  case NoSection
  with assms show ?thesis by (simp add: cursect_set_def)
next
  case InDefaults
  with assms show ?thesis
    by (simp add: cursect_set_def lower_state_def lower_keys_dict_set)
next
  case (InSection s)
  show ?thesis
  proof (cases "map_of (rs_sections st) s")
    case None
    with InSection assms show ?thesis by (simp add: cursect_set_def)
  next
    case (Some d)
    from assms(1) have a: "list_all (\<lambda>sec. lower_keys (snd sec)) (rs_sections st)"
      by (simp add: lower_state_def)
    from list_all_map_of [of lower_keys, OF a Some] have "lower_keys d" .
    then have "lower_keys (dict_set name val d)" using assms(2) by (rule lower_keys_dict_set)
    from list_all_dict_set [of lower_keys, OF a this]
    show ?thesis using InSection Some assms(1)
      by (simp add: cursect_set_def lower_state_def)
  qed
qed

lemma lower_state_cursect_append:
  assumes "lower_state st" and "optionxform name = name"
  shows "lower_state (cursect_append st name line)"
  using assms by (simp add: cursect_append_def lower_state_cursect_set split: option.splits)

lemma lower_state_read_header:
  assumes "lower_state st" and "read_header st header = Inr st'"
  shows "lower_state st'"
  using assms
  by (auto simp: read_header_def lower_state_def lower_keys_def split: if_splits)

lemma lower_state_read_option:
  assumes "lower_state st" and "read_option st option optval = Inr st'"
  shows "lower_state st'"
proof -
  let ?n = "optionxform (rstrip option)"
  have n: "optionxform ?n = ?n" by (rule optionxform_idem)
  define st1 where "st1 = (if option = [] then st\<lparr>rs_e := True\<rparr> else st)"
  define st2 where "st2 = st1\<lparr>optname := Some ?n,
      elements_added := elements_added st1 @
        [OptionElement (case sectname st1 of Some s \<Rightarrow> s | None \<Rightarrow> []) ?n]\<rparr>"
  from assms(1) have "lower_state st1" by (simp add: st1_def lower_state_def)
  then have "lower_state st2" using n by (simp add: st2_def lower_state_def)
  then have "lower_state (cursect_set st2 ?n [strip optval])"
    using n by (rule lower_state_cursect_set)
  moreover from assms(2) have "st' = cursect_set st2 ?n [strip optval]"
    by (auto simp: read_option_def Let_def st1_def st2_def split: if_splits)
  ultimately show ?thesis by simp
qed

lemma truthy_fixed:
  "lower_state st \<Longrightarrow> truthy (optname st) \<Longrightarrow> optionxform (the (optname st)) = the (optname st)"
  by (auto simp: lower_state_def truthy_def split: option.splits)

lemma lower_state_indent: "lower_state st \<Longrightarrow> lower_state (st\<lparr>indent_level := n\<rparr>)"
  by (simp add: lower_state_def)

lemma lower_state_e: "lower_state st \<Longrightarrow> lower_state (st\<lparr>rs_e := b\<rparr>)"
  by (simp add: lower_state_def)

lemma lower_state_read_line:
  assumes "lower_state st" and "read_line st line = Inr st'"
  shows "lower_state st'"
  using assms
  by (auto simp: read_line_def Let_def lower_state_cursect_append truthy_fixed
        lower_state_indent lower_state_e
      split: if_splits option.splits
      intro: lower_state_read_header [OF lower_state_indent]
             lower_state_read_option [OF lower_state_indent])

lemma lower_state_read_lines:
  "lower_state st \<Longrightarrow> read_lines st ls = Inr st' \<Longrightarrow> lower_state st'"
  by (induction ls arbitrary: st) (auto split: sum.splits dest: lower_state_read_line)

lemma lower_config_join: "lower_state st \<Longrightarrow> lower_config (join_multiline_values st)"
  by (fastforce simp: lower_state_def lower_config_def join_multiline_values_def lower_keys_def
      list_all_iff)

lemma lower_config_cp_read:
  assumes "cp_read fs f = Inr c"
  shows "lower_config c"
proof (cases "file_text fs f")
  case (Inl err)
  with assms show ?thesis
    by (auto simp: cp_read_def empty_config_def lower_config_def lower_keys_def split: if_splits)
next
  case (Inr t)
  with assms obtain st where "read_lines initial_state (readlines (universal_newlines t)) = Inr st"
    and c: "c = join_multiline_values st"
    by (auto simp: cp_read_def cp_read_text_def split: sum.splits if_splits)
  moreover have "lower_state initial_state"
    by (simp add: lower_state_def initial_state_def lower_keys_def)
  ultimately have "lower_state st" by (blast intro: lower_state_read_lines)
  then show ?thesis unfolding c by (rule lower_config_join)
qed

lemma lower_keys_foldl_update:
  "lower_keys d \<Longrightarrow> lower_keys ds \<Longrightarrow> lower_keys (foldl (\<lambda>opts (k, v). dict_set k v opts) d ds)"
proof (induction ds arbitrary: d)
  case Nil
  then show ?case by simp
next
  case (Cons kv ds)
  then have "lower_keys (dict_set (fst kv) (snd kv) d)" "lower_keys ds"
    by (auto simp: lower_keys_def intro: lower_keys_dict_set [unfolded lower_keys_def])
  from Cons.IH [OF this] show ?case by (simp add: case_prod_beta)
qed

lemma cp_options_lower:
  assumes "lower_config c" and "cp_options c s = Inr opts"
  shows "list_all (\<lambda>k. optionxform k = k) opts"
proof -
  from assms(2) obtain d where d: "map_of (cp_sections c) s = Some d"
    and o: "opts = map fst (foldl (\<lambda>opts (k, v). dict_set k v opts) d (cp_defaults c))"
    by (auto simp: cp_options_def split: option.splits)
  from assms(1) have a: "list_all (\<lambda>sec. lower_keys (snd sec)) (cp_sections c)"
    and b: "lower_keys (cp_defaults c)" by (simp_all add: lower_config_def)
  from list_all_map_of [of lower_keys, OF a d] have "lower_keys d" .
  from lower_keys_foldl_update [OF this b] show ?thesis
    unfolding o by (simp add: lower_keys_def list_all_iff)
qed

lemma read_options_lower:
  "read_options c s opts acc = Inr res \<Longrightarrow> list_all (\<lambda>k. optionxform k = k) opts \<Longrightarrow>
   lower_keys acc \<Longrightarrow> lower_keys res"
proof (induction opts arbitrary: acc)
  case Nil
  then show ?case by simp
next
  case (Cons k opts)
  from Cons.prems(1) obtain v where v: "cp_get c s k = Inr v"
    and r: "read_options c s opts (dict_set k v acc) = Inr res"
    by (auto split: sum.splits)
  from Cons.prems have "lower_keys (dict_set k v acc)" by (simp add: lower_keys_dict_set)
  with Cons.IH [OF r] Cons.prems(2) show ?case by simp
qed

lemma read_sections_lower:
  "read_sections c names acc = Inr res \<Longrightarrow> lower_config c \<Longrightarrow>
   list_all (\<lambda>sec. lower_keys (snd sec)) acc \<Longrightarrow> list_all (\<lambda>sec. lower_keys (snd sec)) res"
proof (induction names arbitrary: acc)
  case Nil
  then show ?case by simp
next
  case (Cons s names)
  from Cons.prems(1) obtain opts d where o: "cp_options c s = Inr opts"
    and ro: "read_options c s opts [] = Inr d"
    and r: "read_sections c names (dict_set s d acc) = Inr res"
    by (auto split: sum.splits)
  have "lower_keys ([] :: (string, string) dict)" by (simp add: lower_keys_def)
  from read_options_lower [OF ro cp_options_lower [OF Cons.prems(2) o] this]
  have "lower_keys d" .
  from list_all_dict_set [of lower_keys, OF Cons.prems(3) this]
  have "list_all (\<lambda>sec. lower_keys (snd sec)) (dict_set s d acc)" .
  from Cons.IH [OF r Cons.prems(2) this] show ?case .
qed

lemma read_cfg_lower:
  assumes "read_cfg fs f = Inr res"
  shows "list_all (\<lambda>sec. lower_keys (snd sec)) res"
proof -
  from assms obtain c where c: "cp_read fs f = Inr c"
    and r: "read_sections c (cp_section_names c) [] = Inr res"
    by (auto simp: read_cfg_def split: sum.splits)
  from read_sections_lower [OF r lower_config_cp_read [OF c]] show ?thesis by simp
qed

section \<open>read\_cfg: the option names returned and the option names stored\<close>

subsection \<open>One line\<close>




















subsection \<open>The parser once the file is read\<close>










subsection \<open>What is stored in a file that create\_cfg wrote\<close>

text \<open>
  For a valid document the names stored in the text that \<^verbatim>\<open>create_cfg\<close> writes are the
  option names of the document, as they are written there.
\<close>

lemma option_group_blank: "option_group st [CHR 0x0A] = None"
  by (simp add: option_group_def not_comment_blank strip_blank)

lemma option_group_plain:
  assumes "strip l = v" and "v \<noteq> []" and "\<not> is_comment l" and "cur_indent_level l = 0"
  shows "option_group st l =
           (case sectcre_match v of
              Some header \<Rightarrow> None
            | None \<Rightarrow>
                if cursect st = NoSection then None else map_option fst (optcre_match v))"
  using assms by (simp add: option_group_def Let_def split: option.splits)

lemma option_group_header:
  assumes "s \<noteq> []"
  shows "option_group st (''['' @ s @ '']'' @ [CHR 0x0A]) = None"
proof -
  let ?l = "''['' @ s @ '']'' @ [CHR 0x0A]"
  have c: "\<not> is_comment ?l"
    unfolding is_comment_def strip_header by (simp add: startswith_def)
  have i: "cur_indent_level ?l = 0"
    by (simp add: cur_indent_level_def isspace_def)
  have "option_group st ?l = (case sectcre_match (''['' @ s @ '']'') of
              Some header \<Rightarrow> None
            | None \<Rightarrow>
                if cursect st = NoSection then None
                else map_option fst (optcre_match (''['' @ s @ '']'')))"
    by (rule option_group_plain [OF strip_header _ c i]) simp
  then show ?thesis
    by (simp only: sectcre_match_header [OF assms] option.case)
qed

lemma option_group_option:
  assumes "valid_option_name name" and "valid_value v" and "cursect st \<noteq> NoSection"
  shows "option_group st (option_line (name, v)) = Some name"
proof -
  let ?l = "option_line (name, v)"
  from assms have n: "name \<noteq> []" "lstrip name = name" and h: "hd name \<notin> set ''#;[''"
    by (auto simp: valid_option_name_def strip_fixed)
  then obtain c cs where name: "name = c # cs" by (cases name) auto
  with n h have c: "\<not> isspace c" "c \<noteq> CHR ''#''" "c \<noteq> CHR '';''" "c \<noteq> CHR ''[''"
    using lstrip_fixed_hd [of name] by auto
  have s: "strip ?l = name @ ''='' @ v" by (rule strip_option_line [OF assms(1,2)])
  have cm: "\<not> is_comment ?l"
    unfolding is_comment_def s using c by (simp add: startswith_def name)
  have i: "cur_indent_level ?l = 0"
    using c by (simp add: cur_indent_level_def option_line_def name)
  have sm: "sectcre_match (name @ ''='' @ v) = None"
    using c by (simp add: sectcre_match_def name)
  have "name @ ''='' @ v \<noteq> []" using n by simp
  from option_group_plain [OF s this cm i, of st] show ?thesis
    using assms(3)
    by (simp only: sm optcre_match_option [OF assms(1,2)] option.case if_False
          option.map fst_conv)
qed

lemma stored_names_from_append:
  "read_lines st xs = Inr st' \<Longrightarrow>
   stored_names_from st (xs @ ys) = stored_names_from st xs @ stored_names_from st' ys"
  by (induction xs arbitrary: st) (auto split: sum.splits)

lemma stored_option_lines:
  assumes "in_section st d s cur"
    and "list_all (\<lambda>ov. valid_option_name (fst ov) \<and> valid_value (snd ov)) opts"
    and "distinct (map fst cur @ map (\<lambda>ov. optionxform (fst ov)) opts)"
  shows "stored_names_from st (map option_line opts) = map (\<lambda>ov. (s, fst ov)) opts"
  using assms
proof (induction opts arbitrary: st cur)
  case Nil
  then show ?case by simp
next
  case (Cons ov opts)
  from Cons.prems have n: "valid_option_name (fst ov)" and v: "valid_value (snd ov)"
    and f: "optionxform (fst ov) \<notin> fst ` set cur" by auto
  from Cons.prems(1) have cs: "cursect st \<noteq> NoSection" and so: "sect_of st = s"
    by (auto simp: in_section_def sect_of_def)
  from step_option [OF Cons.prems(1) n v f] obtain st1 where
    r: "read_line st (option_line ov) = Inr st1"
    and i: "in_section st1 d s (cur @ [(optionxform (fst ov), snd ov)])" by auto
  from Cons.prems have la: "list_all (\<lambda>ov. valid_option_name (fst ov) \<and> valid_value (snd ov)) opts"
    and di: "distinct (map fst (cur @ [(optionxform (fst ov), snd ov)]) @ map (\<lambda>ov. optionxform (fst ov)) opts)"
    by auto
  from option_group_option [OF n v cs] have g: "option_group st (option_line ov) = Some (fst ov)"
    by simp
  from Cons.IH [OF i la di] r g so show ?case by simp
qed

lemma stored_section:
  assumes rd: "ready st d" and v: "valid_section sec" and fresh: "fst sec \<notin> fst ` set d"
  shows "stored_names_from st (section_lines sec) = map (\<lambda>ov. (fst sec, fst ov)) (snd sec)"
proof -
  from v have sn: "valid_section_name (fst sec)"
    and la: "list_all (\<lambda>ov. valid_option_name (fst ov) \<and> valid_value (snd ov)) (snd sec)"
    and di: "distinct (map fst [] @ map (\<lambda>ov. optionxform (fst ov)) (snd sec))"
    by (auto simp: valid_section_def)
  from sn have ne: "fst sec \<noteq> []" by (simp add: valid_section_name_def)
  from ready_blank [OF rd] obtain st1 where
    r1: "read_line st [CHR 0x0A] = Inr st1" and a: "after_blank st1 d" by auto
  from step_header [OF a sn fresh] obtain st2 where
    r2: "read_line st1 (''['' @ fst sec @ '']'' @ [CHR 0x0A]) = Inr st2"
    and i: "in_section st2 d (fst sec) []" by auto
  have "stored_names_from st (section_lines sec)
          = stored_names_from st2 (map option_line (snd sec))"
    by (simp only: section_lines_def stored_names_from.simps r1 r2 sum.case
          option_group_blank option_group_header [OF ne] option.case append_Nil)
  with stored_option_lines [OF i la di] show ?thesis by simp
qed

lemma stored_document:
  assumes "ready st d" and "list_all valid_section doc" and "distinct (map fst d @ map fst doc)"
  shows "stored_names_from st (concat (map section_lines doc)) = names_of doc"
  using assms
proof (induction doc arbitrary: st d)
  case Nil
  then show ?case by (simp add: names_of_def)
next
  case (Cons sec doc)
  from Cons.prems have v: "valid_section sec" and f: "fst sec \<notin> fst ` set d" by auto
  from read_section [OF Cons.prems(1) v f] obtain st1 where
    r: "read_lines st (section_lines sec) = Inr st1"
    and i: "in_section st1 d (fst sec) (map (\<lambda>ov. (optionxform (fst ov), snd ov)) (snd sec))"
    by auto
  let ?d = "d @ [(fst sec, map (\<lambda>ov. (optionxform (fst ov), snd ov)) (snd sec))]"
  from i have rd: "ready st1 ?d" unfolding ready_def by blast
  from Cons.prems have la: "list_all valid_section doc"
    and di: "distinct (map fst ?d @ map fst doc)" by auto
  from Cons.IH [OF rd la di] stored_section [OF Cons.prems(1) v f]
    stored_names_from_append [OF r, of "concat (map section_lines doc)"]
  show ?case by (simp add: names_of_def)
qed

lemma stored_names_cfg_text:
  assumes "valid_document doc"
  shows "stored_names (cfg_text doc) = names_of doc"
proof -
  from assms have la: "list_all valid_section doc" and di: "distinct (map fst [] @ map fst doc)"
    by (auto simp: valid_document_def is_dict_def)
  have rd: "ready initial_state []" by (simp add: ready_def)
  from stored_document [OF rd la di] show ?thesis
    by (simp add: stored_names_def universal_newlines_id [OF no_cr_cfg_text [OF la]]
        readlines_cfg_text [OF la])
qed

text \<open>
  The names stored in the example file, in the file written for a document whose value
  starts with a space, and in a file with white space around \<open>=\<close> and with a colon.
\<close>

lemma stored_names_examples:
  "stored_names config_text_example = [(''s'', ''Key''), (''s'', ''port''), (''DEFAULT'', ''Zed'')]"
  "stored_names (cfg_text [(''s'', [(''Key'', '' v'')])]) = [(''s'', ''Key'')]"
  "read_cfg (written [(''s'', [(''Key'', '' v'')])]) ''app.cfg'' = Inr [(''s'', [(''key'', ''v'')])]"
  "stored_names (''[s]'' @ [CHR 0x0A] @ ''Key = v'' @ [CHR 0x0A] @ ''A: b'' @ [CHR 0x0A])
     = [(''s'', ''Key''), (''s'', ''A'')]"
  by code_simp+

section \<open>read\_cfg and create\_cfg: the claims\<close>

lemma create_cfg_no_files: "create_cfg no_files ''app.cfg'' doc = Inr (written doc)"
  by (simp add: create_cfg_def no_files_def written_def)

lemma lower_options_id:
  assumes "lowercase_options doc"
  shows "lower_options doc = doc"
proof -
  have "map (\<lambda>ov. (optionxform (fst ov), snd ov)) opts = opts"
    if "lower_keys opts" for opts :: "(string, string) dict"
    using that unfolding lower_keys_def by (induction opts) auto
  with assms show ?thesis
    unfolding lower_options_def lowercase_options_def by (induction doc) auto
qed

text \<open>
  C7. Where no file exists at the path, \<^verbatim>\<open>read_cfg\<close> raises nothing and returns the empty
  dictionary: \<^verbatim>\<open>config.read\<close> passes over a file that cannot be opened.
\<close>

theorem read_cfg_missing_file:
  assumes "file_text fs f = Inl FileNotFoundError"
  shows "read_cfg fs f = Inr []"
  using assms
  by (simp add: read_cfg_def cp_read_def is_OSError_def empty_config_def cp_section_names_def)

theorem read_cfg_missing_file_witness:
  "file_text no_files ''settings.cfg'' = Inl FileNotFoundError
   \<and> read_cfg no_files ''settings.cfg'' = Inr []"
  using read_cfg_missing_file [of no_files "''settings.cfg''"] by (simp add: no_files_def)

text \<open>
  C10. There is a file that the parser reads without complaint, with the section \<open>s\<close>
  and the option \<open>rate\<close> whose stored value is \<open>50%\<close>, on which \<^verbatim>\<open>read_cfg\<close> returns no
  document: getting the value raises \<^verbatim>\<open>InterpolationSyntaxError\<close>, since the \<open>%\<close> is
  followed neither by \<open>%\<close> nor by \<open>(\<close>.
\<close>

theorem read_cfg_percent_raises:
  "file_text (written [(''s'', [(''rate'', ''50%'')])]) ''app.cfg''
     = Inr ([CHR 0x0A] @ ''[s]'' @ [CHR 0x0A] @ ''rate=50%'' @ [CHR 0x0A])
   \<and> cp_read (written [(''s'', [(''rate'', ''50%'')])]) ''app.cfg''
     = Inr \<lparr>cp_sections = [(''s'', [(''rate'', ''50%'')])], cp_defaults = []\<rparr>
   \<and> read_cfg (written [(''s'', [(''rate'', ''50%'')])]) ''app.cfg'' = Inl InterpolationSyntaxError"
  by code_simp




text \<open>
  C1, as stated, fails. The value \<open>'' v''\<close> has no \<open>=\<close> and no line feed; written and
  read, it comes back as \<open>''v''\<close>. The value \<open>50%\<close> has none either; written and read, it
  raises \<^verbatim>\<open>InterpolationSyntaxError\<close>.
\<close>

theorem roundtrip_counterexample:
  "is_dict [(''s'', [(''k'', '' v'')])] \<and> is_dict [(''k'', '' v'')]
   \<and> values_as_claimed [(''s'', [(''k'', '' v'')])]
   \<and> write_then_read no_files ''app.cfg'' [(''s'', [(''k'', '' v'')])] = Inr [(''s'', [(''k'', ''v'')])]
   \<and> write_then_read no_files ''app.cfg'' [(''s'', [(''k'', '' v'')])] \<noteq> Inr [(''s'', [(''k'', '' v'')])]
   \<and> values_as_claimed [(''s'', [(''rate'', ''50%'')])]
   \<and> write_then_read no_files ''app.cfg'' [(''s'', [(''rate'', ''50%'')])] = Inl InterpolationSyntaxError"
  by code_simp

text \<open>
  C1, amended. For every valid document (see \<open>valid_document\<close>) whose option names are
  in lower case and whose values have no \<open>=\<close> and no line feed: when \<^verbatim>\<open>create_cfg\<close>
  has written it to a path, \<^verbatim>\<open>read_cfg\<close> of that path returns the document itself, with
  the same sections, the same options and the same values, in the same order.
\<close>

theorem create_cfg_read_cfg_roundtrip:
  assumes "valid_document doc" and "lowercase_options doc" and "values_as_claimed doc"
    and "create_cfg fs f doc = Inr fs'"
  shows "read_cfg fs' f = Inr doc"
  using read_cfg_written [OF assms(1,4)] lower_options_id [OF assms(2)] by simp

theorem create_cfg_read_cfg_roundtrip_witness:
  "valid_document config_example \<and> lowercase_options config_example
   \<and> values_as_claimed config_example
   \<and> create_cfg no_files ''app.cfg'' config_example = Inr (written config_example)
   \<and> read_cfg (written config_example) ''app.cfg'' = Inr config_example"
proof -
  have v: "valid_document config_example" by code_simp
  have l: "lowercase_options config_example" by code_simp
  have c: "values_as_claimed config_example" by code_simp
  note w = create_cfg_no_files [of config_example]
  from create_cfg_read_cfg_roundtrip [OF v l c w] v l c w show ?thesis by simp
qed

text \<open>
  Each condition of the amended round trip is there for an input that fails without it:
  a value with white space at its end or with a carriage return; an option name in upper
  case, equal to another one but for the case, with a delimiter, with white space at its
  start, empty, or starting with \<open>#\<close> or \<open>[\<close>; a section name that is empty, is
  \<open>DEFAULT\<close>, or has a line feed.
\<close>

lemma roundtrip_restrictions:
  "write_then_read no_files ''app.cfg'' [(''s'', [(''k'', ''v '')])] = Inr [(''s'', [(''k'', ''v'')])]"
  "write_then_read no_files ''app.cfg'' [(''s'', [(''k'', ''a'' @ [CHR 0x0D] @ ''b'')])] = Inl ParsingError"
  "write_then_read no_files ''app.cfg'' [(''s'', [(''K'', ''v'')])] = Inr [(''s'', [(''k'', ''v'')])]"
  "write_then_read no_files ''app.cfg'' [(''s'', [(''A'', ''1''), (''a'', ''2'')])]
     = Inl (DuplicateOptionError ''s'' ''a'')"
  "write_then_read no_files ''app.cfg'' [(''s'', [(''a:b'', ''v'')])] = Inr [(''s'', [(''a'', ''b=v'')])]"
  "write_then_read no_files ''app.cfg'' [(''s'', [('' k'', ''v'')])] = Inr [(''s'', [(''k'', ''v'')])]"
  "write_then_read no_files ''app.cfg'' [(''s'', [([], ''v'')])] = Inl ParsingError"
  "write_then_read no_files ''app.cfg'' [(''s'', [(''#k'', ''v'')])] = Inr [(''s'', [])]"
  "write_then_read no_files ''app.cfg'' [(''s'', [(''[k]'', ''v'')])] = Inr [(''s'', []), (''k'', [])]"
  "write_then_read no_files ''app.cfg'' [([], [(''k'', ''v'')])] = Inl MissingSectionHeaderError"
  "write_then_read no_files ''app.cfg'' [(''DEFAULT'', [(''k'', ''v'')])] = Inr []"
  "write_then_read no_files ''app.cfg'' [(''a'' @ [CHR 0x0A] @ ''b'', [(''k'', ''v'')])]
     = Inl MissingSectionHeaderError"
  by code_simp+

end
